theory Spec2Isabelle
  imports Main "HOL-Library.Sublist" "HOL-Library.AList" "HOL-Library.Multiset"
begin

section \<open>Strings, errors and instants\<close>

text \<open>
  Go strings are byte sequences: \<open>string\<close> (a \<open>char list\<close>) with one \<open>char\<close> per byte.
  A Go \<open>error\<close> is observed by the program only through \<open>err.Error()\<close> and through
  \<open>err != nil\<close>, so an error is its message and an optional error is \<open>error option\<close>.
  A \<open>time.Time\<close> is used only through \<open>Before\<close>, which compares instants: an instant is
  an integer (nanoseconds on the time line), and \<open>t.Before(u)\<close> is \<open>t < u\<close>.
\<close>

type_synonym error = string
type_synonym time = int

text \<open>\<open>strings.HasPrefix\<close>: \<open>len(s) >= len(prefix) && s[:len(prefix)] == prefix\<close>.\<close>

definition HasPrefix :: "string \<Rightarrow> string \<Rightarrow> bool" where
  "HasPrefix s pre \<longleftrightarrow> length pre \<le> length s \<and> take (length pre) s = pre"

text \<open>\<open>strings.HasSuffix\<close>: \<open>len(s) >= len(suffix) && s[len(s)-len(suffix):] == suffix\<close>.\<close>

definition HasSuffix :: "string \<Rightarrow> string \<Rightarrow> bool" where
  "HasSuffix s suf \<longleftrightarrow> length suf \<le> length s \<and> drop (length s - length suf) s = suf"

text \<open>\<open>strings.Contains(s, substr)\<close>: some position of \<open>s\<close> starts an occurrence of
  \<open>substr\<close> (the empty string occurs everywhere, also in the empty string).\<close>

fun Contains :: "string \<Rightarrow> string \<Rightarrow> bool" where
  "Contains [] substr = (substr = [])"
| "Contains (c # cs) substr = (HasPrefix (c # cs) substr \<or> Contains cs substr)"

text \<open>
  \<open>strings.Split(s, sep)\<close> for a separator of one byte, the only use the program makes of
  it (\<open>"/"\<close>): the segments between the separators, in order; a string without separator
  (the empty string too) is its own single segment.
\<close>

fun Split :: "string \<Rightarrow> char \<Rightarrow> string list" where
  "Split [] sep = [[]]"
| "Split (c # cs) sep =
     (if c = sep then [] # Split cs sep
      else (case Split cs sep of
              [] \<Rightarrow> [[c]]
            | p # ps \<Rightarrow> (c # p) # ps))"

section \<open>Pure helpers of the program\<close>

text \<open>
  \<open>extractHostnamePath\<close> returns Go's pair \<open>(string, error)\<close>: the empty string with an
  error, or the prefix with \<open>nil\<close>.
\<close>

definition extractHostnamePath :: "string \<Rightarrow> string \<times> error option" where
  "extractHostnamePath manifestKey =
     (let parts = Split manifestKey CHR ''/'' in
      if length parts < 4 then ('''', Some (''invalid manifest path: '' @ manifestKey))
      else (parts ! 0 @ ''/'' @ parts ! 1 @ ''/'', None))"

text \<open>\<open>currentRetention\<close> is a \<open>*time.Time\<close>: \<open>None\<close> is the nil pointer.\<close>

definition needsRetentionUpdate :: "time option \<Rightarrow> time \<Rightarrow> bool" where
  "needsRetentionUpdate currentRetention requiredUntil =
     (case currentRetention of
        None \<Rightarrow> True
      | Some t \<Rightarrow> t < requiredUntil)"

text \<open>
  The key of a referenced object, computed inline at the head of the inner loop of
  \<open>main\<close>: a path that already starts with the hostname path is the key, any other path
  is appended to the hostname path.
\<close>

definition resolveObjectKey :: "string \<Rightarrow> string \<Rightarrow> string" where
  "resolveObjectKey hostnamePath path =
     (if HasPrefix path hostnamePath then path else hostnamePath @ path)"

section \<open>Manifest documents\<close>

text \<open>
  \<open>ManifestEntry\<close>, \<open>ManifestObject\<close> and \<open>Manifest\<close> of the program. \<open>Size\<close> is an
  \<open>int64\<close>; no arithmetic is done on it, so it is an integer that the decoder keeps within
  the range of the type. The field \<open>Objects\<close> of \<open>ManifestEntry\<close> is \<open>EntryObjects\<close> here,
  \<open>Objects\<close> being the field of \<open>Manifest\<close>.

  A Go slice is a window on an array: \<open>elems\<close> are the elements of the slice, \<open>spare\<close> the
  cells of the array behind them that held an element earlier (any cell further on is
  zero). The decoder is the one place of the program that can reach the cells behind a
  slice, in the field \<open>Objects\<close> of an entry; everywhere else a slice is its elements.
\<close>

record ManifestObject =
  Path :: string
  MD5 :: string
  Size :: int

record 'a slice =
  elems :: "'a list"
  spare :: "'a list"

record ManifestEntry =
  Keyspace :: string
  ColumnFamily :: string
  EntryObjects :: "ManifestObject slice"

record Manifest =
  Objects :: "ManifestObject list"

text \<open>
  The bytes of a manifest are read only by \<open>json.Unmarshal\<close>, of Go's standard library.
  The bytes are given here by what the library's scanner makes of them: either they are
  not a JSON text (the empty input is not one), with the syntax error the library reports,
  or they are a JSON text, given by its value. A number keeps its literal, a string is its
  unescaped content, an object keeps its members in the order of the text, repeated names
  included.
\<close>

datatype json =
    JNull
  | JBool bool
  | JNumber string
  | JString string
  | JArray "json list"
  | JObject "(string \<times> json) list"

datatype bytes = Malformed error | Encoded json

text \<open>
  The type-directed half of \<open>json.Unmarshal\<close>, for the destination \<open>[]ManifestEntry\<close> of
  \<open>parseManifest\<close>, after the library (Go 1.21, the version the program is built with).
  An object fills a struct member by member, in the order of the text: a member name
  selects the field whose tag it equals up to case folding, a name that selects no field
  is skipped with its value, and a name that comes again is decoded over what the earlier
  one left in the field. \<open>null\<close> leaves a string, a number or a struct as it is and makes
  a slice nil. An array fills a slice: its element number \<open>i\<close> is decoded into the cell
  number \<open>i\<close> of the array of the slice, as that cell is (a cell that held an element
  before keeps the fields that the new element does not set; a fresh cell is zero), the
  slice ends after the last element, and the empty array gives a new, empty slice. Any
  other combination is an \<open>UnmarshalTypeError\<close>, which names the struct and the path of
  fields in which it arises (\<open>errorContext\<close>; none at the top and for an element of the
  top array). The first such error is the one returned; \<open>parseManifest\<close> drops the partly
  filled value then, so the decoder stops there.
\<close>

type_synonym errorContext = "string \<times> string list"

fun Join :: "string list \<Rightarrow> string \<Rightarrow> string" where
  "Join [] sep = []"
| "Join [a] sep = a"
| "Join (a # b # r) sep = a @ sep @ Join (b # r) sep"

definition kind :: "json \<Rightarrow> string" where
  "kind v = (case v of
      JNull \<Rightarrow> ''null'' | JBool b \<Rightarrow> ''bool'' | JNumber n \<Rightarrow> ''number''
    | JString s \<Rightarrow> ''string'' | JArray xs \<Rightarrow> ''array'' | JObject ms \<Rightarrow> ''object'')"

definition typeError :: "errorContext \<Rightarrow> string \<Rightarrow> string \<Rightarrow> error" where
  "typeError ctx val ty =
     (if fst ctx \<noteq> [] \<or> Join (snd ctx) ''.'' \<noteq> [] then
        ''json: cannot unmarshal '' @ val @ '' into Go struct field '' @ fst ctx @ ''.''
          @ Join (snd ctx) ''.'' @ '' of type '' @ ty
      else ''json: cannot unmarshal '' @ val @ '' into Go value of type '' @ ty)"

text \<open>
  Case folding of a member name, as the library does it for the names that can equal an
  ASCII field name: ASCII letters to upper case, and the two other characters that fold
  to an ASCII letter, the long s (UTF-8 \<open>C5 BF\<close>) to \<open>S\<close> and the Kelvin sign
  (UTF-8 \<open>E2 84 AA\<close>) to \<open>K\<close>.
\<close>

definition upper :: "char \<Rightarrow> char" where
  "upper c =
     (case map_of (zip ''abcdefghijklmnopqrstuvwxyz'' ''ABCDEFGHIJKLMNOPQRSTUVWXYZ'') c of
        None \<Rightarrow> c
      | Some u \<Rightarrow> u)"

fun foldName :: "string \<Rightarrow> string" where
  "foldName [] = []"
| "foldName (c # cs) =
     (if HasPrefix (c # cs) [CHR 0xC5, CHR 0xBF] then CHR ''S'' # foldName (tl cs)
      else if HasPrefix (c # cs) [CHR 0xE2, CHR 0x84, CHR 0xAA] then CHR ''K'' # foldName (tl (tl cs))
      else upper c # foldName cs)"

text \<open>\<open>strconv.ParseInt(s, 10, 64)\<close>, which decodes a number literal into an \<open>int64\<close>.\<close>

definition digit :: "char \<Rightarrow> bool" where
  "digit c \<longleftrightarrow> 48 \<le> (of_char c :: nat) \<and> (of_char c :: nat) \<le> 57"

definition ParseInt64 :: "string \<Rightarrow> int option" where
  "ParseInt64 s =
     (let neg = (case s of c # r \<Rightarrow> c = CHR ''-'' | [] \<Rightarrow> False);
          ds = (case s of c # r \<Rightarrow> if c = CHR ''-'' \<or> c = CHR ''+'' then r else s | [] \<Rightarrow> s);
          n = int (foldl (\<lambda>a c. 10 * a + (of_char c - 48)) (0 :: nat) ds);
          v = (if neg then - n else n)
      in if ds = [] \<or> \<not> list_all digit ds then None
         else if - (2 ^ 63) \<le> v \<and> v < 2 ^ 63 then Some v
         else None)"

fun foldM :: "('b \<Rightarrow> 'a \<Rightarrow> error + 'a) \<Rightarrow> 'b list \<Rightarrow> 'a \<Rightarrow> error + 'a" where
  "foldM f [] a = Inr a"
| "foldM f (x # xs) a = (case f x a of Inl e \<Rightarrow> Inl e | Inr a' \<Rightarrow> foldM f xs a')"

fun mapM :: "('b \<Rightarrow> error + 'a) \<Rightarrow> 'b list \<Rightarrow> error + 'a list" where
  "mapM f [] = Inr []"
| "mapM f (x # xs) =
     (case f x of
        Inl e \<Rightarrow> Inl e
      | Inr y \<Rightarrow> (case mapM f xs of Inl e \<Rightarrow> Inl e | Inr ys \<Rightarrow> Inr (y # ys)))"

text \<open>
  Each decoder takes the context for its error, the value its destination holds, and the
  JSON value; it returns the error or the value the destination holds afterwards.
\<close>

definition decode_string :: "errorContext \<Rightarrow> string \<Rightarrow> json \<Rightarrow> error + string" where
  "decode_string ctx cur v =
     (case v of
        JString s \<Rightarrow> Inr s
      | JNull \<Rightarrow> Inr cur
      | _ \<Rightarrow> Inl (typeError ctx (kind v) ''string''))"

definition decode_int64 :: "errorContext \<Rightarrow> int \<Rightarrow> json \<Rightarrow> error + int" where
  "decode_int64 ctx cur v =
     (case v of
        JNumber lit \<Rightarrow>
          (case ParseInt64 lit of
             Some n \<Rightarrow> Inr n
           | None \<Rightarrow> Inl (typeError ctx (''number '' @ lit) ''int64''))
      | JNull \<Rightarrow> Inr cur
      | _ \<Rightarrow> Inl (typeError ctx (kind v) ''int64''))"

definition member_ManifestObject ::
  "string list \<Rightarrow> string \<times> json \<Rightarrow> ManifestObject \<Rightarrow> error + ManifestObject" where
  "member_ManifestObject stack m obj =
     (let name = foldName (fst m); v = snd m in
      if name = foldName ''path'' then
        (case decode_string (''ManifestObject'', stack @ [''path'']) (Path obj) v of
           Inl e \<Rightarrow> Inl e | Inr s \<Rightarrow> Inr (obj\<lparr>Path := s\<rparr>))
      else if name = foldName ''MD5'' then
        (case decode_string (''ManifestObject'', stack @ [''MD5'']) (MD5 obj) v of
           Inl e \<Rightarrow> Inl e | Inr s \<Rightarrow> Inr (obj\<lparr>MD5 := s\<rparr>))
      else if name = foldName ''size'' then
        (case decode_int64 (''ManifestObject'', stack @ [''size'']) (Size obj) v of
           Inl e \<Rightarrow> Inl e | Inr n \<Rightarrow> Inr (obj\<lparr>Size := n\<rparr>))
      else Inr obj)"

definition decode_ManifestObject ::
  "errorContext \<Rightarrow> ManifestObject \<Rightarrow> json \<Rightarrow> error + ManifestObject" where
  "decode_ManifestObject ctx cur v =
     (case v of
        JObject ms \<Rightarrow> foldM (member_ManifestObject (snd ctx)) ms cur
      | JNull \<Rightarrow> Inr cur
      | _ \<Rightarrow> Inl (typeError ctx (kind v) ''main.ManifestObject''))"

text \<open>
  The elements of an array, decoded into the cells \<open>cells\<close> of the array of the slice, one
  after the other; behind the last of these cells the cells are zero.
\<close>

fun decode_elements ::
  "errorContext \<Rightarrow> ManifestObject list \<Rightarrow> json list \<Rightarrow> error + ManifestObject list" where
  "decode_elements ctx cells [] = Inr []"
| "decode_elements ctx cells (x # xs) =
     (case decode_ManifestObject ctx
             (case cells of [] \<Rightarrow> \<lparr>Path = '''', MD5 = '''', Size = 0\<rparr> | c # cs \<Rightarrow> c) x of
        Inl e \<Rightarrow> Inl e
      | Inr y \<Rightarrow>
          (case decode_elements ctx (tl cells) xs of
             Inl e \<Rightarrow> Inl e
           | Inr ys \<Rightarrow> Inr (y # ys)))"

definition decode_objects ::
  "errorContext \<Rightarrow> ManifestObject slice \<Rightarrow> json \<Rightarrow> error + ManifestObject slice" where
  "decode_objects ctx cur v =
     (case v of
        JArray xs \<Rightarrow>
          if xs = [] then Inr \<lparr>elems = [], spare = []\<rparr>
          else (case decode_elements ctx (elems cur @ spare cur) xs of
                  Inl e \<Rightarrow> Inl e
                | Inr ys \<Rightarrow>
                    Inr \<lparr>elems = ys, spare = drop (length xs) (elems cur @ spare cur)\<rparr>)
      | JNull \<Rightarrow> Inr \<lparr>elems = [], spare = []\<rparr>
      | _ \<Rightarrow> Inl (typeError ctx (kind v) ''[]main.ManifestObject''))"

definition member_ManifestEntry :: "string \<times> json \<Rightarrow> ManifestEntry \<Rightarrow> error + ManifestEntry" where
  "member_ManifestEntry m entry =
     (let name = foldName (fst m); v = snd m in
      if name = foldName ''keyspace'' then
        (case decode_string (''ManifestEntry'', [''keyspace'']) (Keyspace entry) v of
           Inl e \<Rightarrow> Inl e | Inr s \<Rightarrow> Inr (entry\<lparr>Keyspace := s\<rparr>))
      else if name = foldName ''columnfamily'' then
        (case decode_string (''ManifestEntry'', [''columnfamily'']) (ColumnFamily entry) v of
           Inl e \<Rightarrow> Inl e | Inr s \<Rightarrow> Inr (entry\<lparr>ColumnFamily := s\<rparr>))
      else if name = foldName ''objects'' then
        (case decode_objects (''ManifestEntry'', [''objects'']) (EntryObjects entry) v of
           Inl e \<Rightarrow> Inl e | Inr objs \<Rightarrow> Inr (entry\<lparr>EntryObjects := objs\<rparr>))
      else Inr entry)"

definition decode_ManifestEntry :: "json \<Rightarrow> error + ManifestEntry" where
  "decode_ManifestEntry v =
     (case v of
        JObject ms \<Rightarrow>
          foldM member_ManifestEntry ms
            \<lparr>Keyspace = '''', ColumnFamily = '''', EntryObjects = \<lparr>elems = [], spare = []\<rparr>\<rparr>
      | JNull \<Rightarrow>
          Inr \<lparr>Keyspace = '''', ColumnFamily = '''', EntryObjects = \<lparr>elems = [], spare = []\<rparr>\<rparr>
      | _ \<Rightarrow> Inl (typeError ([], []) (kind v) ''main.ManifestEntry''))"

text \<open>\<open>json.Unmarshal(data, &entries)\<close> with \<open>var entries []ManifestEntry\<close>.\<close>

definition Unmarshal_entries :: "bytes \<Rightarrow> error + ManifestEntry list" where
  "Unmarshal_entries data =
     (case data of
        Malformed e \<Rightarrow> Inl e
      | Encoded v \<Rightarrow>
          (case v of
             JArray xs \<Rightarrow> mapM decode_ManifestEntry xs
           | JNull \<Rightarrow> Inr []
           | _ \<Rightarrow> Inl (typeError ([], []) (kind v) ''[]main.ManifestEntry'')))"

text \<open>
  \<open>parseManifest\<close> returns \<open>(nil, err)\<close> or \<open>(&Manifest{...}, nil)\<close>: a sum. The loop
  appends the objects of each entry to \<open>allObjects\<close>, which starts as the nil slice.
\<close>

definition parseManifest :: "bytes \<Rightarrow> error + Manifest" where
  "parseManifest data =
     (case Unmarshal_entries data of
        Inl err \<Rightarrow> Inl (''failed to parse manifest: '' @ err)
      | Inr entries \<Rightarrow>
          Inr \<lparr>Objects =
                 foldl (\<lambda>allObjects entry. allObjects @ elems (EntryObjects entry)) [] entries\<rparr>)"

text \<open>
  The two shapes of document the specification names, as JSON values: a mapping with the
  member \<open>objects\<close>, a sequence of \<open>{path}\<close> records; and a sequence of records, one per
  table, each with its own member \<open>objects\<close>.
\<close>

definition pathRecord :: "string \<Rightarrow> json" where
  "pathRecord p = JObject [(''path'', JString p)]"

definition flatShape :: "string list \<Rightarrow> json" where
  "flatShape ps = JObject [(''objects'', JArray (map pathRecord ps))]"

definition tableShape :: "string list list \<Rightarrow> json" where
  "tableShape tables = JArray (map flatShape tables)"

section \<open>The object store\<close>

text \<open>
  The requests and responses of the four operations of \<open>S3API\<close>, with the fields the
  program writes or reads. A pointer field that the program tests or passes on is an
  \<open>option\<close> (\<open>None\<close> is nil). The input fields are set with \<open>aws.String\<close> and are never
  nil. \<open>Body\<close> stands for what \<open>io.ReadAll(resp.Body)\<close> yields: a read error or the bytes.
  As the SDK promises, a response that comes with a nil error is not nil itself.
\<close>

record ListObjectsV2Input =
  list_Bucket :: string
  list_Prefix :: string
  list_ContinuationToken :: "string option"

record Object =
  Key :: "string option"

record ListObjectsV2Output =
  Contents :: "Object list"
  IsTruncated :: "bool option"
  NextContinuationToken :: "string option"

record GetObjectInput =
  get_Bucket :: string
  get_Key :: string

record GetObjectOutput =
  Body :: "error + bytes"

record GetObjectRetentionInput =
  ret_Bucket :: string
  ret_Key :: string

record ObjectLockRetention =
  Mode :: string
  RetainUntilDate :: "time option"

record GetObjectRetentionOutput =
  Retention :: "ObjectLockRetention option"

record PutObjectRetentionInput =
  put_Bucket :: string
  put_Key :: string
  put_Retention :: "ObjectLockRetention option"

text \<open>The two values of \<open>types.ObjectLockRetentionMode\<close>, a string type of the SDK.\<close>

definition ObjectLockRetentionModeGovernance :: string where
  "ObjectLockRetentionModeGovernance = ''GOVERNANCE''"

definition ObjectLockRetentionModeCompliance :: string where
  "ObjectLockRetentionModeCompliance = ''COMPLIANCE''"

text \<open>
  \<open>S3API\<close> is an interface: the program works with any implementation. A client is its
  four operations over a state \<open>'s\<close> of its own (the store behind it, or the counters of
  a mock); each call takes the state and returns the result with the next state.
  \<open>PutObjectRetention\<close> returns its error only, the program discards the output.
\<close>

record 's S3API =
  ListObjectsV2 :: "ListObjectsV2Input \<Rightarrow> 's \<Rightarrow> (error + ListObjectsV2Output) \<times> 's"
  GetObject :: "GetObjectInput \<Rightarrow> 's \<Rightarrow> (error + GetObjectOutput) \<times> 's"
  GetObjectRetention :: "GetObjectRetentionInput \<Rightarrow> 's \<Rightarrow> (error + GetObjectRetentionOutput) \<times> 's"
  PutObjectRetention :: "PutObjectRetentionInput \<Rightarrow> 's \<Rightarrow> error option \<times> 's"

text \<open>
  What a run does to the world: the state of the client, the calls made to it with their
  results, in order, and the lines written to the log. The calls are kept so that claims
  about the requests the program issues can be stated; the program itself never reads
  them.
\<close>

datatype call =
    ListObjectsV2_call ListObjectsV2Input "error + ListObjectsV2Output"
  | GetObject_call GetObjectInput "error + GetObjectOutput"
  | GetObjectRetention_call GetObjectRetentionInput "error + GetObjectRetentionOutput"
  | PutObjectRetention_call PutObjectRetentionInput "error option"

datatype logline =
    Log_Usage
  | Log_FailedToFindManifests error
  | Log_Found nat
  | Log_Processing string
  | Log_ErrorDownloading string error
  | Log_InvalidManifestPath string
  | Log_ErrorChecking string error
  | Log_DryRun string
  | Log_ErrorUpdating string error
  | Log_Updated string time
  | Log_Done

record 's world =
  client_state :: 's
  calls :: "call list"
  logged :: "logline list"

definition logf :: "logline \<Rightarrow> 's world \<Rightarrow> 's world" where
  "logf l w = w\<lparr>logged := logged w @ [l]\<rparr>"

definition call_ListObjectsV2 ::
  "'s S3API \<Rightarrow> ListObjectsV2Input \<Rightarrow> 's world \<Rightarrow> (error + ListObjectsV2Output) \<times> 's world" where
  "call_ListObjectsV2 client params w =
     (case ListObjectsV2 client params (client_state w) of
        (r, s) \<Rightarrow> (r, w\<lparr>client_state := s, calls := calls w @ [ListObjectsV2_call params r]\<rparr>))"

definition call_GetObject ::
  "'s S3API \<Rightarrow> GetObjectInput \<Rightarrow> 's world \<Rightarrow> (error + GetObjectOutput) \<times> 's world" where
  "call_GetObject client params w =
     (case GetObject client params (client_state w) of
        (r, s) \<Rightarrow> (r, w\<lparr>client_state := s, calls := calls w @ [GetObject_call params r]\<rparr>))"

definition call_GetObjectRetention ::
  "'s S3API \<Rightarrow> GetObjectRetentionInput \<Rightarrow> 's world
     \<Rightarrow> (error + GetObjectRetentionOutput) \<times> 's world" where
  "call_GetObjectRetention client params w =
     (case GetObjectRetention client params (client_state w) of
        (r, s) \<Rightarrow> (r, w\<lparr>client_state := s, calls := calls w @ [GetObjectRetention_call params r]\<rparr>))"

definition call_PutObjectRetention ::
  "'s S3API \<Rightarrow> PutObjectRetentionInput \<Rightarrow> 's world \<Rightarrow> error option \<times> 's world" where
  "call_PutObjectRetention client params w =
     (case PutObjectRetention client params (client_state w) of
        (r, s) \<Rightarrow> (r, w\<lparr>client_state := s, calls := calls w @ [PutObjectRetention_call params r]\<rparr>))"

section \<open>The operations on the store\<close>

text \<open>\<open>aws.ToBool\<close>: false for nil.\<close>

definition ToBool :: "bool option \<Rightarrow> bool" where
  "ToBool p = (case p of None \<Rightarrow> False | Some b \<Rightarrow> b)"

text \<open>
  \<open>checkRetention\<close> returns Go's pair \<open>(bool, error)\<close>: \<open>(true, nil)\<close> for the three error
  texts it looks for, \<open>(false, err)\<close> for any other error.
\<close>

definition checkRetention ::
  "'s S3API \<Rightarrow> string \<Rightarrow> string \<Rightarrow> time \<Rightarrow> 's world \<Rightarrow> (bool \<times> error option) \<times> 's world" where
  "checkRetention client bucket key requiredUntil w =
     (case call_GetObjectRetention client \<lparr>ret_Bucket = bucket, ret_Key = key\<rparr> w of
        (Inl err, w') \<Rightarrow>
          if Contains err ''NoSuchObjectLockConfiguration''
             \<or> Contains err ''ObjectLockConfigurationNotFoundError''
             \<or> Contains err ''NoSuchKey''
          then ((True, None), w')
          else ((False, Some err), w')
      | (Inr resp, w') \<Rightarrow>
          (let currentRetention =
                 (case Retention resp of
                    None \<Rightarrow> None
                  | Some r \<Rightarrow> RetainUntilDate r)
           in ((needsRetentionUpdate currentRetention requiredUntil, None), w')))"

definition updateRetention ::
  "'s S3API \<Rightarrow> string \<Rightarrow> string \<Rightarrow> time \<Rightarrow> 's world \<Rightarrow> error option \<times> 's world" where
  "updateRetention client bucket key retainUntil w =
     call_PutObjectRetention client
       \<lparr>put_Bucket = bucket, put_Key = key,
        put_Retention = Some \<lparr>Mode = ObjectLockRetentionModeGovernance,
                              RetainUntilDate = Some retainUntil\<rparr>\<rparr> w"

definition downloadManifest ::
  "'s S3API \<Rightarrow> string \<Rightarrow> string \<Rightarrow> 's world \<Rightarrow> (error + Manifest) \<times> 's world" where
  "downloadManifest client bucket key w =
     (case call_GetObject client \<lparr>get_Bucket = bucket, get_Key = key\<rparr> w of
        (Inl err, w') \<Rightarrow> (Inl (''failed to get object: '' @ err), w')
      | (Inr resp, w') \<Rightarrow>
          (case Body resp of
             Inl err \<Rightarrow> (Inl (''failed to read body: '' @ err), w')
           | Inr body \<Rightarrow> (parseManifest body, w')))"

text \<open>
  \<open>findManifests\<close>. The map \<open>backupPaths\<close> is an association list, a key entered once.
  \<open>*obj.Key\<close> panics on a nil key. The listing loop ends when a page fails or is not
  truncated; a store that always answers with a truncated page keeps it running, and then
  the function has no result (\<open>None\<close>). Go leaves the order in which \<open>range\<close> goes
  through a map open: \<open>order\<close> is what the runtime makes of the keys in that run.
\<close>

datatype 'a outcome = Panics | Returns 'a

fun collect :: "Object list \<Rightarrow> (string \<times> bool) list \<Rightarrow> (string \<times> bool) list outcome" where
  "collect [] backupPaths = Returns backupPaths"
| "collect (obj # objs) backupPaths =
     (case Key obj of
        None \<Rightarrow> Panics
      | Some key \<Rightarrow>
          collect objs
            (if HasSuffix key ''/meta/manifest.json'' then AList.update key True backupPaths
             else backupPaths))"

partial_function (option) listLoop ::
  "'s S3API \<Rightarrow> string \<Rightarrow> string \<Rightarrow> string option \<Rightarrow> (string \<times> bool) list \<Rightarrow> 's world
     \<Rightarrow> ((error + (string \<times> bool) list) outcome \<times> 's world) option" where
  "listLoop client bucket pre continuationToken backupPaths w =
     (case call_ListObjectsV2 client
             \<lparr>list_Bucket = bucket, list_Prefix = pre,
              list_ContinuationToken = continuationToken\<rparr> w of
        (Inl err, w') \<Rightarrow> Some (Returns (Inl (''failed to list objects: '' @ err)), w')
      | (Inr resp, w') \<Rightarrow>
          (case collect (Contents resp) backupPaths of
             Panics \<Rightarrow> Some (Panics, w')
           | Returns backupPaths' \<Rightarrow>
               if \<not> ToBool (IsTruncated resp) then Some (Returns (Inr backupPaths'), w')
               else listLoop client bucket pre (NextContinuationToken resp) backupPaths' w'))"

declare listLoop.simps [code]

definition findManifests ::
  "(string list \<Rightarrow> string list) \<Rightarrow> 's S3API \<Rightarrow> string \<Rightarrow> string \<Rightarrow> 's world
     \<Rightarrow> ((error + string list) outcome \<times> 's world) option" where
  "findManifests order client bucket cluster w =
     (case listLoop client bucket (cluster @ ''/'') None [] w of
        None \<Rightarrow> None
      | Some (Panics, w') \<Rightarrow> Some (Panics, w')
      | Some (Returns (Inl err), w') \<Rightarrow> Some (Returns (Inl err), w')
      | Some (Returns (Inr backupPaths), w') \<Rightarrow>
          Some (Returns (Inr (order (map fst backupPaths))), w'))"

section \<open>The driver\<close>

text \<open>
  The body of the inner loop of \<open>main\<close>, for one object of a manifest, and the body of
  the outer loop, for one manifest key. Each \<open>continue\<close> ends the body there. The loops
  are \<open>fold\<close>s of the bodies over the objects and over the manifest keys.
\<close>

definition objectStep ::
  "'s S3API \<Rightarrow> string \<Rightarrow> bool \<Rightarrow> time \<Rightarrow> string \<Rightarrow> ManifestObject \<Rightarrow> 's world \<Rightarrow> 's world" where
  "objectStep client bucket dryRun retentionUntil hostnamePath obj w =
     (let objectKey = resolveObjectKey hostnamePath (Path obj) in
      case checkRetention client bucket objectKey retentionUntil w of
        ((needsUpdate, Some err), w1) \<Rightarrow> logf (Log_ErrorChecking objectKey err) w1
      | ((needsUpdate, None), w1) \<Rightarrow>
          if needsUpdate then
            if dryRun then logf (Log_DryRun objectKey) w1
            else (case updateRetention client bucket objectKey retentionUntil w1 of
                    (Some err, w2) \<Rightarrow> logf (Log_ErrorUpdating objectKey err) w2
                  | (None, w2) \<Rightarrow> logf (Log_Updated objectKey retentionUntil) w2)
          else w1)"

definition manifestStep ::
  "'s S3API \<Rightarrow> string \<Rightarrow> bool \<Rightarrow> time \<Rightarrow> string \<Rightarrow> 's world \<Rightarrow> 's world" where
  "manifestStep client bucket dryRun retentionUntil manifestKey w =
     (case downloadManifest client bucket manifestKey (logf (Log_Processing manifestKey) w) of
        (Inl err, w1) \<Rightarrow> logf (Log_ErrorDownloading manifestKey err) w1
      | (Inr manifest, w1) \<Rightarrow>
          (case extractHostnamePath manifestKey of
             (hostnamePath, Some err) \<Rightarrow> logf (Log_InvalidManifestPath manifestKey) w1
           | (hostnamePath, None) \<Rightarrow>
               fold (objectStep client bucket dryRun retentionUntil hostnamePath)
                 (Objects manifest) w1))"

text \<open>
  \<open>main\<close>, from the parsed flags on. \<open>log.Fatal\<close> and \<open>log.Fatalf\<close> write the line and
  end the process; a panic ends it too. The client is the one \<open>main\<close> builds from the
  loaded configuration (a configuration that fails to load ends the process before any
  call is made). \<open>retentionUntil\<close> is \<open>time.Now().AddDate(0, 0, *retentionDays)\<close>,
  read from the clock once, after the discovery and before the first manifest.
\<close>

datatype exit = Fatal | Panicked | Done

definition main ::
  "(string list \<Rightarrow> string list) \<Rightarrow> 's S3API \<Rightarrow> string \<Rightarrow> string \<Rightarrow> int \<Rightarrow> bool \<Rightarrow> time
     \<Rightarrow> 's world \<Rightarrow> (exit \<times> 's world) option" where
  "main order client bucket cluster retentionDays dryRun retentionUntil w =
     (if bucket = '''' \<or> cluster = '''' \<or> retentionDays \<le> 0 then Some (Fatal, logf Log_Usage w)
      else
        (case findManifests order client bucket cluster w of
           None \<Rightarrow> None
         | Some (Panics, w1) \<Rightarrow> Some (Panicked, w1)
         | Some (Returns (Inl err), w1) \<Rightarrow> Some (Fatal, logf (Log_FailedToFindManifests err) w1)
         | Some (Returns (Inr manifests), w1) \<Rightarrow>
             Some (Done,
               logf Log_Done
                 (fold (manifestStep client bucket dryRun retentionUntil) manifests
                    (logf (Log_Found (length manifests)) w1)))))"

section \<open>Clients\<close>

text \<open>
  \<open>MockS3Client\<close>, in the manner of the one in the program's tests: each operation
  answers from a script, one answer per call, and fails with \<open>not implemented\<close> once its
  script is used up.
\<close>

record mock =
  list_script :: "(error + ListObjectsV2Output) list"
  get_script :: "(error + GetObjectOutput) list"
  ret_script :: "(error + GetObjectRetentionOutput) list"
  put_script :: "error option list"

definition MockS3Client :: "mock S3API" where
  "MockS3Client =
     \<lparr>ListObjectsV2 = (\<lambda>p s. case list_script s of
          [] \<Rightarrow> (Inl ''ListObjectsV2 not implemented'', s)
        | r # rs \<Rightarrow> (r, s\<lparr>list_script := rs\<rparr>)),
      GetObject = (\<lambda>p s. case get_script s of
          [] \<Rightarrow> (Inl ''GetObject not implemented'', s)
        | r # rs \<Rightarrow> (r, s\<lparr>get_script := rs\<rparr>)),
      GetObjectRetention = (\<lambda>p s. case ret_script s of
          [] \<Rightarrow> (Inl ''GetObjectRetention not implemented'', s)
        | r # rs \<Rightarrow> (r, s\<lparr>ret_script := rs\<rparr>)),
      PutObjectRetention = (\<lambda>p s. case put_script s of
          [] \<Rightarrow> (Some ''PutObjectRetention not implemented'', s)
        | r # rs \<Rightarrow> (r, s\<lparr>put_script := rs\<rparr>))\<rparr>"

text \<open>
  A store in memory: one bucket, its objects locked in governance mode only. It holds the
  objects with their content, in the order of the listing, and the expiry of each object
  that has a retention, in milliseconds: the SDK writes the \<open>RetainUntilDate\<close> of a
  request with three digits of the fraction of the second, so a store gets the instant cut
  to the millisecond, and that is the instant it reports to a later query. The store lists
  in one page and answers a missing object and a missing retention with the error codes of
  S3. It takes the update of a stored object unless the update would shorten the retention
  of the object, which S3 denies to a request that does not ask to bypass governance (the
  requests of the program do not).
\<close>

definition Millisecond :: int where
  "Millisecond = 1000000"

record store =
  objects :: "(string \<times> bytes) list"
  retention :: "string \<rightharpoonup> int"

definition memStore :: "store S3API" where
  "memStore =
     \<lparr>ListObjectsV2 = (\<lambda>p s.
        (Inr \<lparr>Contents = map (\<lambda>k. \<lparr>Key = Some k\<rparr>)
                              (filter (\<lambda>k. HasPrefix k (list_Prefix p)) (map fst (objects s))),
              IsTruncated = Some False,
              NextContinuationToken = None\<rparr>, s)),
      GetObject = (\<lambda>p s. case map_of (objects s) (get_Key p) of
          None \<Rightarrow> (Inl ''NoSuchKey: The specified key does not exist.'', s)
        | Some data \<Rightarrow> (Inr \<lparr>Body = Inr data\<rparr>, s)),
      GetObjectRetention = (\<lambda>p s. case map_of (objects s) (ret_Key p) of
          None \<Rightarrow> (Inl ''NoSuchKey: The specified key does not exist.'', s)
        | Some data \<Rightarrow>
            (case retention s (ret_Key p) of
               None \<Rightarrow> (Inl ''NoSuchObjectLockConfiguration: no retention on this object'', s)
             | Some ms \<Rightarrow>
                 (Inr \<lparr>Retention = Some \<lparr>Mode = ObjectLockRetentionModeGovernance,
                                          RetainUntilDate = Some (ms * Millisecond)\<rparr>\<rparr>, s))),
      PutObjectRetention = (\<lambda>p s. case map_of (objects s) (put_Key p) of
          None \<Rightarrow> (Some ''NoSuchKey: The specified key does not exist.'', s)
        | Some data \<Rightarrow>
            (case put_Retention p of
               None \<Rightarrow> (Some ''MalformedXML: no retention in the request'', s)
             | Some r \<Rightarrow>
                 (case RetainUntilDate r of
                    None \<Rightarrow> (Some ''MalformedXML: no date in the request'', s)
                  | Some t \<Rightarrow>
                      if Mode r \<noteq> ObjectLockRetentionModeGovernance
                      then (Some ''InvalidArgument: this store keeps governance mode only'', s)
                      else if (case retention s (put_Key p) of
                                 None \<Rightarrow> False
                               | Some ms \<Rightarrow> t div Millisecond < ms)
                      then (Some ''AccessDenied: Access Denied'', s)
                      else (None, s\<lparr>retention :=
                                       (retention s)(put_Key p \<mapsto> t div Millisecond)\<rparr>))))\<rparr>"

text \<open>
  The same store for a caller whose policy does not allow \<open>s3:GetObjectRetention\<close>,
  while it allows the listing, the download and the update. S3 denies each retention
  query of this caller, with a message that names the caller, the action and the resource,
  and so the bucket and the key; \<open>accessDenied\<close> is the text of the error as the SDK
  returns it.
\<close>

definition accessDenied :: "string \<Rightarrow> string \<Rightarrow> error" where
  "accessDenied bucket key =
     ''operation error S3: GetObjectRetention, https response error StatusCode: 403, ''
     @ ''RequestID: 4442587FB7D0A2F9, HostID: a1b2c3d4, api error AccessDenied: ''
     @ ''User: arn:aws:iam::123456789012:user/refresher is not authorized to perform: ''
     @ ''s3:GetObjectRetention on resource: '' @ [CHR 0x22] @ ''arn:aws:s3:::'' @ bucket
     @ ''/'' @ key @ [CHR 0x22]
     @ '' because no identity-based policy allows the s3:GetObjectRetention action''"

definition deniedStore :: "store S3API" where
  "deniedStore =
     memStore\<lparr>GetObjectRetention :=
                (\<lambda>p s. (Inl (accessDenied (ret_Bucket p) (ret_Key p)), s))\<rparr>"

section \<open>The vocabulary of the claims\<close>

text \<open>The calls of one kind among the calls of a run, in order.\<close>

fun listings :: "call list \<Rightarrow> (ListObjectsV2Input \<times> (error + ListObjectsV2Output)) list" where
  "listings [] = []"
| "listings (ListObjectsV2_call p r # cs) = (p, r) # listings cs"
| "listings (c # cs) = listings cs"

fun downloads :: "call list \<Rightarrow> (GetObjectInput \<times> (error + GetObjectOutput)) list" where
  "downloads [] = []"
| "downloads (GetObject_call p r # cs) = (p, r) # downloads cs"
| "downloads (c # cs) = downloads cs"

fun queries ::
  "call list \<Rightarrow> (GetObjectRetentionInput \<times> (error + GetObjectRetentionOutput)) list" where
  "queries [] = []"
| "queries (GetObjectRetention_call q r # cs) = (q, r) # queries cs"
| "queries (c # cs) = queries cs"

fun updates :: "call list \<Rightarrow> (PutObjectRetentionInput \<times> error option) list" where
  "updates [] = []"
| "updates (PutObjectRetention_call p r # cs) = (p, r) # updates cs"
| "updates (c # cs) = updates cs"

text \<open>The calls made between two worlds, the later one reached from the earlier one.\<close>

definition issued :: "'s world \<Rightarrow> 's world \<Rightarrow> call list" where
  "issued w w' = drop (length (calls w)) (calls w')"

text \<open>
  The expiry a retention query reports: none when the query fails, when the response has
  no retention, and when the retention has no date.
\<close>

definition queriedExpiry :: "error + GetObjectRetentionOutput \<Rightarrow> time option" where
  "queriedExpiry r =
     (case r of
        Inl err \<Rightarrow> None
      | Inr resp \<Rightarrow> (case Retention resp of None \<Rightarrow> None | Some x \<Rightarrow> RetainUntilDate x))"

text \<open>
  An update request \<open>p\<close> answers a query \<open>q\<close> with result \<open>r\<close> for the target \<open>t\<close>: it
  is for the same object, it asks for governance mode until \<open>t\<close>, and the query reported
  no expiry or one strictly before \<open>t\<close>.
\<close>

definition answers ::
  "time \<Rightarrow> GetObjectRetentionInput \<Rightarrow> error + GetObjectRetentionOutput
     \<Rightarrow> PutObjectRetentionInput \<Rightarrow> bool" where
  "answers t q r p \<longleftrightarrow>
     put_Bucket p = ret_Bucket q \<and> put_Key p = ret_Key q
     \<and> put_Retention p = Some \<lparr>Mode = ObjectLockRetentionModeGovernance,
                                RetainUntilDate = Some t\<rparr>
     \<and> (case queriedExpiry r of None \<Rightarrow> True | Some d \<Rightarrow> d < t)"

text \<open>
  A list of calls is guarded when each update in it comes directly after a query that it
  answers (\<open>prev\<close> is the call before the list).
\<close>

definition permitted :: "time \<Rightarrow> call option \<Rightarrow> call \<Rightarrow> bool" where
  "permitted t prev c =
     (case c of
        PutObjectRetention_call p res \<Rightarrow>
          (case prev of
             Some (GetObjectRetention_call q r) \<Rightarrow> answers t q r p
           | _ \<Rightarrow> False)
      | _ \<Rightarrow> True)"

fun guardedBy :: "time \<Rightarrow> call option \<Rightarrow> call list \<Rightarrow> bool" where
  "guardedBy t prev [] = True"
| "guardedBy t prev (c # cs) = (permitted t prev c \<and> guardedBy t (Some c) cs)"

text \<open>
  What the result \<open>r\<close> of a retention query tells the driver, for the target \<open>t\<close>: an
  update is due when the query failed with a message that \<open>checkRetention\<close> reads as
  "no lock configuration" or "no such object", and when the query succeeded and reported
  no expiry or an expiry strictly before \<open>t\<close>.
\<close>

definition updateDue :: "time \<Rightarrow> error + GetObjectRetentionOutput \<Rightarrow> bool" where
  "updateDue t r =
     (case r of
        Inl err \<Rightarrow>
          Contains err ''NoSuchObjectLockConfiguration''
          \<or> Contains err ''ObjectLockConfigurationNotFoundError''
          \<or> Contains err ''NoSuchKey''
      | Inr resp \<Rightarrow> needsRetentionUpdate (queriedExpiry r) t)"

text \<open>The update request for the object \<open>key\<close> of \<open>bucket\<close> and the target \<open>t\<close>.\<close>

definition request :: "string \<Rightarrow> time \<Rightarrow> string \<Rightarrow> PutObjectRetentionInput" where
  "request bucket t key =
     \<lparr>put_Bucket = bucket, put_Key = key,
      put_Retention = Some \<lparr>Mode = ObjectLockRetentionModeGovernance,
                            RetainUntilDate = Some t\<rparr>\<rparr>"

text \<open>
  The calls of the inner loop's body for the object with key \<open>key\<close>: the query alone, in
  a dry run and when its result calls for no update; the query and after it the update
  request, outside a dry run when the result of the query calls for the update.
\<close>

definition objectCalls :: "string \<Rightarrow> bool \<Rightarrow> time \<Rightarrow> string \<Rightarrow> call list \<Rightarrow> bool" where
  "objectCalls bucket dryRun t key new \<longleftrightarrow>
     (\<exists>r. (new = [GetObjectRetention_call \<lparr>ret_Bucket = bucket, ret_Key = key\<rparr> r]
            \<and> (dryRun \<or> \<not> updateDue t r))
        \<or> (\<exists>res. \<not> dryRun \<and> updateDue t r
             \<and> new = [GetObjectRetention_call \<lparr>ret_Bucket = bucket, ret_Key = key\<rparr> r,
                      PutObjectRetention_call (request bucket t key) res]))"

text \<open>
  The keys that the download of a manifest gives the driver to work on: those of the
  objects of the manifest, when the download, the read, the decoding and the hostname path
  all succeed, and none otherwise.
\<close>

definition referencedKeys :: "GetObjectInput \<times> (error + GetObjectOutput) \<Rightarrow> string list" where
  "referencedKeys d =
     (case snd d of
        Inl err \<Rightarrow> []
      | Inr resp \<Rightarrow>
          (case Body resp of
             Inl err \<Rightarrow> []
           | Inr body \<Rightarrow>
               (case parseManifest body of
                  Inl err \<Rightarrow> []
                | Inr manifest \<Rightarrow>
                    (case extractHostnamePath (get_Key (fst d)) of
                       (hostnamePath, Some err) \<Rightarrow> []
                     | (hostnamePath, None) \<Rightarrow>
                         map (\<lambda>obj. resolveObjectKey hostnamePath (Path obj))
                           (Objects manifest)))))"

definition manifestCalls :: "string \<Rightarrow> bool \<Rightarrow> time \<Rightarrow> string \<Rightarrow> call list \<Rightarrow> bool" where
  "manifestCalls bucket dryRun t key new \<longleftrightarrow>
     (\<exists>r news.
        new = GetObject_call \<lparr>get_Bucket = bucket, get_Key = key\<rparr> r # concat news
        \<and> list_all2 (objectCalls bucket dryRun t)
            (referencedKeys (\<lparr>get_Bucket = bucket, get_Key = key\<rparr>, r)) news)"

text \<open>
  The listing of a prefix consists of the pages \<open>pages\<close>: asked from the state \<open>s\<close> with
  the token \<open>tok\<close>, the client answers with the first page; each page but the last is
  truncated, and asked with its token the client answers with the next page; the last page
  is not truncated.
\<close>

fun pagesFrom ::
  "'s S3API \<Rightarrow> string \<Rightarrow> string \<Rightarrow> string option \<Rightarrow> 's \<Rightarrow> ListObjectsV2Output list \<Rightarrow> bool" where
  "pagesFrom client bucket pre tok s [] = False"
| "pagesFrom client bucket pre tok s (page # pages) =
     (case ListObjectsV2 client
             \<lparr>list_Bucket = bucket, list_Prefix = pre, list_ContinuationToken = tok\<rparr> s of
        (Inl err, s') \<Rightarrow> False
      | (Inr resp, s') \<Rightarrow>
          resp = page
          \<and> (if ToBool (IsTruncated page)
             then pagesFrom client bucket pre (NextContinuationToken page) s' pages
             else pages = []))"

text \<open>The keys of the entries of some pages, in order (an entry without key has none).\<close>

definition listedKeys :: "ListObjectsV2Output list \<Rightarrow> string list" where
  "listedKeys pages = List.map_filter Key (concat (map Contents pages))"

section \<open>A run on the mock\<close>

text \<open>
  A run to try the claims on. The listing has two pages that share a manifest key and
  hold the key of a data file. The manifest of the first host cannot be downloaded; the
  manifest of the second host names three objects, one of them by its full key. The first
  object has an expiry of 50, the query for the second is denied, the third has no lock
  configuration; the first update succeeds and the second is denied. \<open>example_calls\<close>
  are the calls of the run for the target 100.
\<close>

definition example_manifest :: bytes where
  "example_manifest =
     Encoded (tableShape [[''data/ks/t1/a.db'', ''cluster1/host2/data/ks/t1/b.db''],
                          [''data/ks/t2/c.db'']])"

definition example_pages :: "ListObjectsV2Output list" where
  "example_pages =
     [\<lparr>Contents = [\<lparr>Key = Some ''cluster1/host1/backup-001/meta/manifest.json''\<rparr>,
                   \<lparr>Key = Some ''cluster1/host1/data/ks/t1/a.db''\<rparr>],
       IsTruncated = Some True,
       NextContinuationToken = Some ''token123''\<rparr>,
      \<lparr>Contents = [\<lparr>Key = Some ''cluster1/host1/backup-001/meta/manifest.json''\<rparr>,
                   \<lparr>Key = Some ''cluster1/host2/backup-001/meta/manifest.json''\<rparr>],
       IsTruncated = Some False,
       NextContinuationToken = None\<rparr>]"

definition example_mock :: "mock world" where
  "example_mock =
     \<lparr>client_state =
        \<lparr>list_script = map Inr example_pages,
         get_script = [Inl ''AccessDenied'', Inr \<lparr>Body = Inr example_manifest\<rparr>],
         ret_script =
           [Inr \<lparr>Retention = Some \<lparr>Mode = ''GOVERNANCE'', RetainUntilDate = Some 50\<rparr>\<rparr>,
            Inl ''AccessDenied'',
            Inl ''NoSuchObjectLockConfiguration''],
         put_script = [None, Some ''AccessDenied'']\<rparr>,
      calls = [], logged = []\<rparr>"

definition example_calls :: "call list" where
  "example_calls =
     [ListObjectsV2_call
        \<lparr>list_Bucket = ''bucket'', list_Prefix = ''cluster1/'', list_ContinuationToken = None\<rparr>
        (Inr (example_pages ! 0)),
      ListObjectsV2_call
        \<lparr>list_Bucket = ''bucket'', list_Prefix = ''cluster1/'',
         list_ContinuationToken = Some ''token123''\<rparr>
        (Inr (example_pages ! 1)),
      GetObject_call
        \<lparr>get_Bucket = ''bucket'', get_Key = ''cluster1/host1/backup-001/meta/manifest.json''\<rparr>
        (Inl ''AccessDenied''),
      GetObject_call
        \<lparr>get_Bucket = ''bucket'', get_Key = ''cluster1/host2/backup-001/meta/manifest.json''\<rparr>
        (Inr \<lparr>Body = Inr example_manifest\<rparr>),
      GetObjectRetention_call
        \<lparr>ret_Bucket = ''bucket'', ret_Key = ''cluster1/host2/data/ks/t1/a.db''\<rparr>
        (Inr \<lparr>Retention = Some \<lparr>Mode = ''GOVERNANCE'', RetainUntilDate = Some 50\<rparr>\<rparr>),
      PutObjectRetention_call
        \<lparr>put_Bucket = ''bucket'', put_Key = ''cluster1/host2/data/ks/t1/a.db'',
         put_Retention = Some \<lparr>Mode = ''GOVERNANCE'', RetainUntilDate = Some 100\<rparr>\<rparr>
        None,
      GetObjectRetention_call
        \<lparr>ret_Bucket = ''bucket'', ret_Key = ''cluster1/host2/data/ks/t1/b.db''\<rparr>
        (Inl ''AccessDenied''),
      GetObjectRetention_call
        \<lparr>ret_Bucket = ''bucket'', ret_Key = ''cluster1/host2/data/ks/t2/c.db''\<rparr>
        (Inl ''NoSuchObjectLockConfiguration''),
      PutObjectRetention_call
        \<lparr>put_Bucket = ''bucket'', put_Key = ''cluster1/host2/data/ks/t2/c.db'',
         put_Retention = Some \<lparr>Mode = ''GOVERNANCE'', RetainUntilDate = Some 100\<rparr>\<rparr>
        (Some ''AccessDenied'')]"

text \<open>
  A run of the loop over five manifest keys in which each kind of failure is followed by
  work that has to go on. The first manifest cannot be downloaded. The second names three
  objects: the first has an expiry of 50 and its update is denied, the query for the
  second is denied, the third has no lock configuration and its update succeeds. The third
  manifest is not a JSON text. The key of the fourth has too few segments for a hostname
  path. The fifth names one object, whose retention is reported empty and whose update
  succeeds. \<open>sibling_calls\<close> are the calls of the loop for the target 100.
\<close>

definition sibling_keys :: "string list" where
  "sibling_keys =
     [''cluster1/host1/backup-001/meta/manifest.json'',
      ''cluster1/host2/backup-001/meta/manifest.json'',
      ''cluster1/host3/backup-001/meta/manifest.json'',
      ''cluster1/meta/manifest.json'',
      ''cluster1/host4/backup-001/meta/manifest.json'']"

definition sibling_mock :: "mock world" where
  "sibling_mock =
     \<lparr>client_state =
        \<lparr>list_script = [],
         get_script =
           [Inl ''AccessDenied'',
            Inr \<lparr>Body = Inr example_manifest\<rparr>,
            Inr \<lparr>Body = Inr (Malformed ''unexpected end of JSON input'')\<rparr>,
            Inr \<lparr>Body = Inr (Encoded (tableShape [[''data/ks/t1/x.db'']]))\<rparr>,
            Inr \<lparr>Body = Inr (Encoded (tableShape [[''data/ks/t3/d.db'']]))\<rparr>],
         ret_script =
           [Inr \<lparr>Retention = Some \<lparr>Mode = ''GOVERNANCE'', RetainUntilDate = Some 50\<rparr>\<rparr>,
            Inl ''AccessDenied'',
            Inl ''NoSuchObjectLockConfiguration'',
            Inr \<lparr>Retention = None\<rparr>],
         put_script = [Some ''AccessDenied'', None, None]\<rparr>,
      calls = [], logged = []\<rparr>"

definition sibling_calls :: "call list" where
  "sibling_calls =
     [GetObject_call
        \<lparr>get_Bucket = ''bucket'', get_Key = ''cluster1/host1/backup-001/meta/manifest.json''\<rparr>
        (Inl ''AccessDenied''),
      GetObject_call
        \<lparr>get_Bucket = ''bucket'', get_Key = ''cluster1/host2/backup-001/meta/manifest.json''\<rparr>
        (Inr \<lparr>Body = Inr example_manifest\<rparr>),
      GetObjectRetention_call
        \<lparr>ret_Bucket = ''bucket'', ret_Key = ''cluster1/host2/data/ks/t1/a.db''\<rparr>
        (Inr \<lparr>Retention = Some \<lparr>Mode = ''GOVERNANCE'', RetainUntilDate = Some 50\<rparr>\<rparr>),
      PutObjectRetention_call
        \<lparr>put_Bucket = ''bucket'', put_Key = ''cluster1/host2/data/ks/t1/a.db'',
         put_Retention = Some \<lparr>Mode = ''GOVERNANCE'', RetainUntilDate = Some 100\<rparr>\<rparr>
        (Some ''AccessDenied''),
      GetObjectRetention_call
        \<lparr>ret_Bucket = ''bucket'', ret_Key = ''cluster1/host2/data/ks/t1/b.db''\<rparr>
        (Inl ''AccessDenied''),
      GetObjectRetention_call
        \<lparr>ret_Bucket = ''bucket'', ret_Key = ''cluster1/host2/data/ks/t2/c.db''\<rparr>
        (Inl ''NoSuchObjectLockConfiguration''),
      PutObjectRetention_call
        \<lparr>put_Bucket = ''bucket'', put_Key = ''cluster1/host2/data/ks/t2/c.db'',
         put_Retention = Some \<lparr>Mode = ''GOVERNANCE'', RetainUntilDate = Some 100\<rparr>\<rparr>
        None,
      GetObject_call
        \<lparr>get_Bucket = ''bucket'', get_Key = ''cluster1/host3/backup-001/meta/manifest.json''\<rparr>
        (Inr \<lparr>Body = Inr (Malformed ''unexpected end of JSON input'')\<rparr>),
      GetObject_call
        \<lparr>get_Bucket = ''bucket'', get_Key = ''cluster1/meta/manifest.json''\<rparr>
        (Inr \<lparr>Body = Inr (Encoded (tableShape [[''data/ks/t1/x.db'']]))\<rparr>),
      GetObject_call
        \<lparr>get_Bucket = ''bucket'', get_Key = ''cluster1/host4/backup-001/meta/manifest.json''\<rparr>
        (Inr \<lparr>Body = Inr (Encoded (tableShape [[''data/ks/t3/d.db'']]))\<rparr>),
      GetObjectRetention_call
        \<lparr>ret_Bucket = ''bucket'', ret_Key = ''cluster1/host4/data/ks/t3/d.db''\<rparr>
        (Inr \<lparr>Retention = None\<rparr>),
      PutObjectRetention_call
        \<lparr>put_Bucket = ''bucket'', put_Key = ''cluster1/host4/data/ks/t3/d.db'',
         put_Retention = Some \<lparr>Mode = ''GOVERNANCE'', RetainUntilDate = Some 100\<rparr>\<rparr>
        None]"

section \<open>Runs on the store in memory\<close>

text \<open>
  An object is stored in a state of the store when the store holds it, and settled for
  the target \<open>t\<close> when it is stored and has a retention with an expiry at or after \<open>t\<close>.
\<close>

definition stored :: "store \<Rightarrow> string \<Rightarrow> bool" where
  "stored s k \<longleftrightarrow> map_of (objects s) k \<noteq> None"

definition settled :: "time \<Rightarrow> store \<Rightarrow> string \<Rightarrow> bool" where
  "settled t s k \<longleftrightarrow>
     stored s k \<and> (case retention s k of None \<Rightarrow> False | Some ms \<Rightarrow> t \<le> ms * Millisecond)"

text \<open>
  What a part of a run with the target \<open>t\<close> does on the store in memory when it works on
  the keys \<open>ks\<close> from the state \<open>s\<close>. The keys \<open>due\<close> are those it asks an update for:
  none in a dry run, otherwise the keys that are not settled. The state \<open>updated\<close> is the
  one it leaves: the due keys that are stored have the target, cut to the millisecond, as
  their expiry. The store answers the update for the key \<open>k\<close> with \<open>answer s k\<close>.
\<close>

definition due :: "time \<Rightarrow> bool \<Rightarrow> string list \<Rightarrow> store \<Rightarrow> string set" where
  "due t dryRun ks s = (if dryRun then {} else {k \<in> set ks. \<not> settled t s k})"

definition updated :: "time \<Rightarrow> bool \<Rightarrow> string list \<Rightarrow> store \<Rightarrow> store" where
  "updated t dryRun ks s =
     s\<lparr>retention := (\<lambda>k. if k \<in> due t dryRun ks s \<and> stored s k
                          then Some (t div Millisecond) else retention s k)\<rparr>"

definition answer :: "store \<Rightarrow> string \<Rightarrow> error option" where
  "answer s k =
     (if stored s k then None else Some ''NoSuchKey: The specified key does not exist.'')"

definition passes ::
  "string \<Rightarrow> time \<Rightarrow> bool \<Rightarrow> string list \<Rightarrow> store world \<Rightarrow> store world \<Rightarrow> bool" where
  "passes bucket t dryRun ks w w' \<longleftrightarrow>
     calls w' = calls w @ issued w w'
     \<and> client_state w' = updated t dryRun ks (client_state w)
     \<and> set (updates (issued w w'))
         = (\<lambda>k. (request bucket t k, answer (client_state w) k))
             ` due t dryRun ks (client_state w)"

text \<open>
  The manifest keys that the discovery finds in the store, before \<open>order\<close>, and the keys
  that the manifest stored under \<open>key\<close> gives the driver.
\<close>

definition stored_manifests :: "(string \<times> bytes) list \<Rightarrow> string \<Rightarrow> string list" where
  "stored_manifests objs cluster =
     (case collect (map (\<lambda>k. \<lparr>Key = Some k\<rparr>)
                      (filter (\<lambda>k. HasPrefix k (cluster @ ''/'')) (map fst objs))) [] of
        Panics \<Rightarrow> []
      | Returns backupPaths \<Rightarrow> map fst backupPaths)"

definition stored_refs :: "(string \<times> bytes) list \<Rightarrow> string \<Rightarrow> string \<Rightarrow> string list" where
  "stored_refs objs bucket key =
     referencedKeys
       (\<lparr>get_Bucket = bucket, get_Key = key\<rparr>,
        (case map_of objs key of
           None \<Rightarrow> Inl ''NoSuchKey: The specified key does not exist.''
         | Some data \<Rightarrow> Inr \<lparr>Body = Inr data\<rparr>))"

text \<open>The keys of the objects for which some update calls ask.\<close>

definition updateKeys :: "(PutObjectRetentionInput \<times> error option) list \<Rightarrow> string set" where
  "updateKeys us = (\<lambda>u. put_Key (fst u)) ` set us"

text \<open>
  Four stores. In \<open>missing_store\<close> the manifest names a data file that is not stored;
  \<open>missing_first\<close> and \<open>missing_second\<close> are the worlds after one and after two runs on
  it, for the target 100. In \<open>mixed_store\<close> the manifest names two data files, one stored
  without a retention and one not stored; \<open>mixed_first\<close> and \<open>mixed_second\<close> are the
  worlds after one and after two runs on it, for a target that is not a whole number of
  milliseconds. In \<open>complete_store\<close> the manifest names one data file, stored without a
  retention. In \<open>locked_store\<close> the manifest names a data file of a table called
  \<open>NoSuchKey\<close>; the file is stored and has a retention that expires at 200 milliseconds;
  \<open>locked_run\<close> is the world after a run on it for the target of 100 milliseconds, by
  the caller who is not allowed to query retentions.
\<close>

definition missing_store :: "store world" where
  "missing_store =
     \<lparr>client_state =
        \<lparr>objects =
           [(''cluster1/host1/backup-001/meta/manifest.json'',
             Encoded (tableShape [[''data/ks/t1/a.db'']]))],
         retention = Map.empty\<rparr>,
      calls = [], logged = []\<rparr>"

definition missing_first :: "store world" where
  "missing_first =
     snd (the (main id memStore ''bucket'' ''cluster1'' 30 False 100 missing_store))"

definition missing_second :: "store world" where
  "missing_second =
     snd (the (main id memStore ''bucket'' ''cluster1'' 30 False 100 missing_first))"

definition mixed_store :: "store world" where
  "mixed_store =
     \<lparr>client_state =
        \<lparr>objects =
           [(''cluster1/host1/backup-001/meta/manifest.json'',
             Encoded (tableShape [[''data/ks/t1/a.db'', ''data/ks/t1/b.db'']])),
            (''cluster1/host1/data/ks/t1/a.db'', Malformed ''invalid character'')],
         retention = Map.empty\<rparr>,
      calls = [], logged = []\<rparr>"

definition mixed_first :: "store world" where
  "mixed_first =
     snd (the (main id memStore ''bucket'' ''cluster1'' 30 False 1700000000123456789 mixed_store))"

definition mixed_second :: "store world" where
  "mixed_second =
     snd (the (main id memStore ''bucket'' ''cluster1'' 30 False 1700000000123456789 mixed_first))"

definition complete_store :: "store world" where
  "complete_store =
     \<lparr>client_state =
        \<lparr>objects =
           [(''cluster1/host1/backup-001/meta/manifest.json'',
             Encoded (tableShape [[''data/ks/t1/a.db'']])),
            (''cluster1/host1/data/ks/t1/a.db'', Malformed ''invalid character'')],
         retention = Map.empty\<rparr>,
      calls = [], logged = []\<rparr>"

definition locked_store :: "store world" where
  "locked_store =
     \<lparr>client_state =
        \<lparr>objects =
           [(''cluster1/host1/backup-001/meta/manifest.json'',
             Encoded (tableShape [[''data/ks/NoSuchKey/x.db'']])),
            (''cluster1/host1/data/ks/NoSuchKey/x.db'', Malformed ''invalid character'')],
         retention = [''cluster1/host1/data/ks/NoSuchKey/x.db'' \<mapsto> 200]\<rparr>,
      calls = [], logged = []\<rparr>"

definition locked_run :: "store world" where
  "locked_run =
     snd (the (main id deniedStore ''bucket'' ''cluster1'' 30 False 100000000 locked_store))"

section \<open>Facts about the string functions\<close>

lemma HasPrefix_iff_prefix: "HasPrefix s pre \<longleftrightarrow> prefix pre s"
  unfolding HasPrefix_def
proof
  assume "length pre \<le> length s \<and> take (length pre) s = pre"
  then have "s = pre @ drop (length pre) s"
    by (metis append_take_drop_id)
  then show "prefix pre s"
    by (metis prefixI)
next
  assume "prefix pre s"
  then obtain r where "s = pre @ r"
    by (auto elim: prefixE)
  then show "length pre \<le> length s \<and> take (length pre) s = pre"
    by simp
qed

lemma HasSuffix_iff_suffix: "HasSuffix s suf \<longleftrightarrow> suffix suf s"
  unfolding HasSuffix_def
proof
  assume a: "length suf \<le> length s \<and> drop (length s - length suf) s = suf"
  have "s = take (length s - length suf) s @ drop (length s - length suf) s"
    by simp
  with a have "s = take (length s - length suf) s @ suf"
    by simp
  then show "suffix suf s"
    by (metis suffixI)
next
  assume "suffix suf s"
  then obtain r where "s = r @ suf"
    by (auto elim: suffixE)
  then show "length suf \<le> length s \<and> drop (length s - length suf) s = suf"
    by simp
qed

lemma Contains_iff_sublist: "Contains s sub \<longleftrightarrow> sublist sub s"
proof (induction s)
  case Nil
  show ?case by simp
next
  case (Cons c cs)
  show ?case
    by (simp add: Cons.IH HasPrefix_iff_prefix sublist_Cons_right)
qed

lemma Split_not_Nil: "Split s sep \<noteq> []"
  by (induction s) (auto split: list.splits)

lemma length_Split: "length (Split s sep) = Suc (count_list s sep)"
  by (induction s) (auto split: list.splits simp: Split_not_Nil)

lemma Split_no_sep: "sep \<notin> set a \<Longrightarrow> Split (a @ sep # rest) sep = a # Split rest sep"
  by (induction a) auto

lemma Split_no_sep_end: "sep \<notin> set a \<Longrightarrow> Split a sep = [a]"
  by (induction a) auto

lemma extractHostnamePath_segments:
  assumes "CHR ''/'' \<notin> set a" and "CHR ''/'' \<notin> set b"
  shows "extractHostnamePath (a @ ''/'' @ b @ ''/'' @ rest) =
     (if CHR ''/'' \<in> set rest then (a @ ''/'' @ b @ ''/'', None)
      else ('''', Some (''invalid manifest path: '' @ a @ ''/'' @ b @ ''/'' @ rest)))"
proof -
  have s: "Split (a @ ''/'' @ b @ ''/'' @ rest) CHR ''/'' = a # b # Split rest CHR ''/''"
    using assms by (simp add: Split_no_sep)
  have c: "(CHR ''/'' \<in> set rest) = (0 < count_list rest CHR ''/'')"
    using count_list_0_iff [of rest "CHR ''/''"] by auto
  show ?thesis
    unfolding extractHostnamePath_def Let_def s
    by (auto simp: length_Split c)
qed

section \<open>The claims on the pure helpers\<close>

text \<open>
  C1. \<open>needsRetentionUpdate\<close> is a total function of its two arguments: it is true for an
  absent current expiry, and for a present one it is true exactly when the current expiry
  is strictly before the required instant, so false when it is equal or later.
\<close>

theorem needsRetentionUpdate_spec:
  "needsRetentionUpdate None required = True
   \<and> needsRetentionUpdate (Some current) required = (current < required)
   \<and> needsRetentionUpdate (Some required) required = False
   \<and> needsRetentionUpdate (Some current) required = (\<not> required \<le> current)"
  by (auto simp: needsRetentionUpdate_def)

text \<open>
  C4. The key the driver computes for a referenced path is the path itself when the path
  textually begins with the hostname path (it is the hostname path followed by some
  rest), and the hostname path followed by the path otherwise. For the manifest key
  \<open>cluster1/host1/backup-001/meta/manifest.json\<close> and the path
  \<open>data/ks/table/file1.db\<close> the key is \<open>cluster1/host1/data/ks/table/file1.db\<close>.
\<close>

theorem resolveObjectKey_spec:
  "resolveObjectKey hostnamePath path =
     (if \<exists>rest. path = hostnamePath @ rest then path else hostnamePath @ path)
   \<and> extractHostnamePath ''cluster1/host1/backup-001/meta/manifest.json''
       = (''cluster1/host1/'', None)
   \<and> resolveObjectKey ''cluster1/host1/'' ''data/ks/table/file1.db''
       = ''cluster1/host1/data/ks/table/file1.db''"
proof -
  have "resolveObjectKey hostnamePath path =
     (if \<exists>rest. path = hostnamePath @ rest then path else hostnamePath @ path)"
    by (auto simp: resolveObjectKey_def HasPrefix_iff_prefix prefix_def)
  moreover have "extractHostnamePath ''cluster1/host1/backup-001/meta/manifest.json''
       = (''cluster1/host1/'', None)"
    by (simp add: extractHostnamePath_def)
  moreover have "resolveObjectKey ''cluster1/host1/'' ''data/ks/table/file1.db''
       = ''cluster1/host1/data/ks/table/file1.db''"
    by (simp add: resolveObjectKey_def HasPrefix_def)
  ultimately show ?thesis by blast
qed

text \<open>
  C5. \<open>extractHostnamePath\<close> splits the key on \<open>/\<close> and returns an error exactly when
  there are fewer than 4 segments, that is fewer than 3 separators; the empty string is one
  segment and gives the error. Otherwise it returns the first two segments, each followed
  by the separator: a key \<open>a/b/rest\<close> with no separator in \<open>a\<close> and \<open>b\<close> gives \<open>a/b/\<close>
  when \<open>rest\<close> has a separator, and the error when it has none.
\<close>

theorem extractHostnamePath_spec:
  "(snd (extractHostnamePath k) \<noteq> None) = (length (Split k CHR ''/'') < 4)
   \<and> length (Split k CHR ''/'') = Suc (count_list k CHR ''/'')
   \<and> extractHostnamePath k =
        (if length (Split k CHR ''/'') < 4 then ('''', Some (''invalid manifest path: '' @ k))
         else (Split k CHR ''/'' ! 0 @ ''/'' @ Split k CHR ''/'' ! 1 @ ''/'', None))
   \<and> extractHostnamePath '''' = ('''', Some ''invalid manifest path: '')
   \<and> (CHR ''/'' \<notin> set a \<and> CHR ''/'' \<notin> set b \<longrightarrow>
        extractHostnamePath (a @ ''/'' @ b @ ''/'' @ rest) =
          (if CHR ''/'' \<in> set rest then (a @ ''/'' @ b @ ''/'', None)
           else ('''', Some (''invalid manifest path: '' @ a @ ''/'' @ b @ ''/'' @ rest))))"
proof -
  have "(snd (extractHostnamePath k) \<noteq> None) = (length (Split k CHR ''/'') < 4)"
    by (simp add: extractHostnamePath_def Let_def)
  moreover have "extractHostnamePath k =
        (if length (Split k CHR ''/'') < 4 then ('''', Some (''invalid manifest path: '' @ k))
         else (Split k CHR ''/'' ! 0 @ ''/'' @ Split k CHR ''/'' ! 1 @ ''/'', None))"
    by (simp add: extractHostnamePath_def Let_def)
  moreover have "extractHostnamePath '''' = ('''', Some ''invalid manifest path: '')"
    by (simp add: extractHostnamePath_def)
  ultimately show ?thesis
    using length_Split [of k "CHR ''/''"] extractHostnamePath_segments [of a b rest]
    by blast
qed

theorem extractHostnamePath_spec_witness:
  "extractHostnamePath ''links/host-8/backup-1764858600/meta/manifest.json''
     = (''links/host-8/'', None)
   \<and> snd (extractHostnamePath ''a/b/c'') \<noteq> None
   \<and> length (Split ''a/b/c'' CHR ''/'') = 3"
proof -
  have "extractHostnamePath (''links'' @ ''/'' @ ''host-8'' @ ''/'' @ ''backup-1764858600/meta/manifest.json'')
     = (''links/host-8/'', None)"
    using extractHostnamePath_spec
      [of "''a/b/c''" "''links''" "''host-8''" "''backup-1764858600/meta/manifest.json''"]
    by simp
  then have "extractHostnamePath ''links/host-8/backup-1764858600/meta/manifest.json''
     = (''links/host-8/'', None)"
    by simp
  moreover have "snd (extractHostnamePath ''a/b/c'') \<noteq> None
      \<and> length (Split ''a/b/c'' CHR ''/'') = 3"
    using extractHostnamePath_spec [of "''a/b/c''" "''a''" "''b''" "''c''"]
    by simp
  ultimately show ?thesis by blast
qed

section \<open>The calls of the driver\<close>

lemma downloads_append: "downloads (a @ b) = downloads a @ downloads b"
  by (induction a rule: downloads.induct) simp_all
lemma queries_append: "queries (a @ b) = queries a @ queries b"
  by (induction a rule: queries.induct) simp_all
lemma updates_append: "updates (a @ b) = updates a @ updates b"
  by (induction a rule: updates.induct) simp_all
lemma listings_append: "listings (a @ b) = listings a @ listings b"
  by (induction a rule: listings.induct) simp_all

lemma downloads_concat: "downloads (concat as) = concat (map downloads as)"
  by (induction as) (simp_all add: downloads_append)
lemma queries_concat: "queries (concat as) = concat (map queries as)"
  by (induction as) (simp_all add: queries_append)
lemma updates_concat: "updates (concat as) = concat (map updates as)"
  by (induction as) (simp_all add: updates_append)
lemma listings_concat: "listings (concat as) = concat (map listings as)"
  by (induction as) (simp_all add: listings_append)

lemma issued_append: "calls w' = calls w @ new \<Longrightarrow> issued w w' = new"
  by (simp add: issued_def)

lemma permitted_weaken: "permitted t None c \<Longrightarrow> permitted t prev c"
  by (auto simp: permitted_def split: call.splits)

lemma guardedBy_weaken: "guardedBy t None cs \<Longrightarrow> guardedBy t prev cs"
  by (cases cs) (auto intro: permitted_weaken)

lemma guardedBy_append:
  "guardedBy t prev a \<Longrightarrow> guardedBy t None b \<Longrightarrow> guardedBy t prev (a @ b)"
  by (induction a arbitrary: prev) (auto intro: guardedBy_weaken)

lemma guardedBy_concat: "(\<And>a. a \<in> set as \<Longrightarrow> guardedBy t None a) \<Longrightarrow> guardedBy t None (concat as)"
  by (induction as) (simp_all add: guardedBy_append)

lemma guardedBy_nth:
  "guardedBy t prev cs \<Longrightarrow> i < length cs \<Longrightarrow>
     permitted t (if i = 0 then prev else Some (cs ! (i - 1))) (cs ! i)"
proof (induction cs arbitrary: prev i)
  case Nil
  then show ?case by simp
next
  case (Cons c cs)
  show ?case
  proof (cases i)
    case 0
    with Cons.prems show ?thesis by simp
  next
    case (Suc j)
    with Cons.prems have "permitted t (if j = 0 then Some c else Some (cs ! (j - 1))) (cs ! j)"
      using Cons.IH [of "Some c" j] by simp
    with Suc show ?thesis by (cases j) simp_all
  qed
qed

lemma guarded_update:
  assumes "guardedBy t None cs" and "i < length cs" and "cs ! i = PutObjectRetention_call p res"
  shows "0 < i \<and> (\<exists>q r. cs ! (i - 1) = GetObjectRetention_call q r \<and> answers t q r p)"
proof -
  have "permitted t (if i = 0 then None else Some (cs ! (i - 1))) (PutObjectRetention_call p res)"
    using guardedBy_nth [OF assms(1,2)] assms(3) by simp
  then show ?thesis
    by (auto simp: permitted_def split: if_splits option.splits call.splits)
qed

lemma fold_calls:
  assumes "\<And>x w. x \<in> set xs \<Longrightarrow> \<exists>new. calls (f x w) = calls w @ new \<and> P x new"
  shows "\<exists>news. calls (fold f xs w) = calls w @ concat news \<and> list_all2 P xs news"
  using assms
proof (induction xs arbitrary: w)
  case Nil
  show ?case by simp
next
  case (Cons x xs)
  from Cons.prems [of x w] obtain new where n: "calls (f x w) = calls w @ new" "P x new"
    by auto
  from Cons.IH [of "f x w"] Cons.prems obtain news
    where ns: "calls (fold f xs (f x w)) = calls (f x w) @ concat news" "list_all2 P xs news"
    by auto
  have "calls (fold f (x # xs) w) = calls w @ concat (new # news)"
    using n ns by simp
  moreover have "list_all2 P (x # xs) (new # news)"
    using n ns by simp
  ultimately show ?case by blast
qed

lemma updateDue_expiry:
  "updateDue t r \<Longrightarrow> (case queriedExpiry r of None \<Rightarrow> True | Some d \<Rightarrow> d < t)"
  by (cases r) (auto simp: updateDue_def queriedExpiry_def needsRetentionUpdate_def
                  split: option.splits)

lemma checkRetention_calls:
  assumes "checkRetention client bucket key t w = ((b, e), w')"
  shows "\<exists>r. calls w' = calls w @ [GetObjectRetention_call \<lparr>ret_Bucket = bucket, ret_Key = key\<rparr> r]
            \<and> (e = None \<and> b \<longleftrightarrow> updateDue t r)"
proof -
  obtain r s where g: "GetObjectRetention client \<lparr>ret_Bucket = bucket, ret_Key = key\<rparr> (client_state w) = (r, s)"
    by (cases "GetObjectRetention client \<lparr>ret_Bucket = bucket, ret_Key = key\<rparr> (client_state w)")
  show ?thesis
  proof (cases r)
    case (Inl err)
    with assms g show ?thesis
      by (auto simp: checkRetention_def call_GetObjectRetention_def updateDue_def
            simp del: Contains.simps split: if_splits)
  next
    case (Inr resp)
    with assms g show ?thesis
      by (auto simp: checkRetention_def call_GetObjectRetention_def updateDue_def
            queriedExpiry_def Let_def)
  qed
qed

lemma updateRetention_calls:
  assumes "updateRetention client bucket key t w = (e, w')"
  shows "calls w' = calls w @ [PutObjectRetention_call (request bucket t key) e]"
  using assms
  by (auto simp: updateRetention_def call_PutObjectRetention_def request_def split: prod.splits)

lemma calls_logf [simp]: "calls (logf l w) = calls w"
  by (simp add: logf_def)

lemma objectStep_calls:
  "\<exists>new. calls (objectStep client bucket dryRun t h obj w) = calls w @ new
        \<and> objectCalls bucket dryRun t (resolveObjectKey h (Path obj)) new"
proof -
  let ?key = "resolveObjectKey h (Path obj)"
  obtain b e w1 where c: "checkRetention client bucket ?key t w = ((b, e), w1)"
    by (metis prod.exhaust)
  from checkRetention_calls [OF c] obtain r
    where r: "calls w1 = calls w @ [GetObjectRetention_call \<lparr>ret_Bucket = bucket, ret_Key = ?key\<rparr> r]"
      and need: "e = None \<and> b \<longleftrightarrow> updateDue t r"
    by blast
  obtain e2 w2 where u: "updateRetention client bucket ?key t w1 = (e2, w2)"
    by (metis prod.exhaust)
  note u2 = updateRetention_calls [OF u]
  show ?thesis
  proof (cases "e = None \<and> b \<and> \<not> dryRun")
    case True
    then have "calls (objectStep client bucket dryRun t h obj w) = calls w2"
      using c u by (auto simp: objectStep_def Let_def split: option.splits)
    with r u2 True need show ?thesis
      unfolding objectCalls_def by auto
  next
    case False
    then have "calls (objectStep client bucket dryRun t h obj w) = calls w1"
      using c by (auto simp: objectStep_def Let_def split: option.splits)
    with r False need show ?thesis
      unfolding objectCalls_def by auto
  qed
qed

lemma objectLoop_calls:
  "\<exists>news. calls (fold (objectStep client bucket dryRun t h) objs w) = calls w @ concat news
       \<and> list_all2 (objectCalls bucket dryRun t) (map (\<lambda>obj. resolveObjectKey h (Path obj)) objs) news"
proof -
  from fold_calls [of objs "objectStep client bucket dryRun t h" "\<lambda>obj. objectCalls bucket dryRun t (resolveObjectKey h (Path obj))" w]
  obtain news where "calls (fold (objectStep client bucket dryRun t h) objs w) = calls w @ concat news"
    and "list_all2 (\<lambda>obj. objectCalls bucket dryRun t (resolveObjectKey h (Path obj))) objs news"
    using objectStep_calls by blast
  then show ?thesis
    by (auto simp: list_all2_map1)
qed

lemma downloadManifest_calls:
  assumes "downloadManifest client bucket key w = (res, w')"
    and "r = fst (GetObject client \<lparr>get_Bucket = bucket, get_Key = key\<rparr> (client_state w))"
  shows "calls w' = calls w @ [GetObject_call \<lparr>get_Bucket = bucket, get_Key = key\<rparr> r]
         \<and> referencedKeys (\<lparr>get_Bucket = bucket, get_Key = key\<rparr>, r) =
            (case res of
               Inl err \<Rightarrow> []
             | Inr manifest \<Rightarrow>
                 (case extractHostnamePath key of
                    (h, Some err) \<Rightarrow> []
                  | (h, None) \<Rightarrow> map (\<lambda>obj. resolveObjectKey h (Path obj)) (Objects manifest)))"
proof -
  obtain s where g: "GetObject client \<lparr>get_Bucket = bucket, get_Key = key\<rparr> (client_state w) = (r, s)"
    using assms(2) by (metis prod.collapse)
  show ?thesis
    using assms(1) g
    by (auto simp: downloadManifest_def call_GetObject_def referencedKeys_def
          split: sum.splits prod.splits option.splits)
qed

lemma manifestStep_calls:
  "\<exists>new. calls (manifestStep client bucket dryRun t key w) = calls w @ new
        \<and> manifestCalls bucket dryRun t key new"
proof -
  obtain res w1 where d: "downloadManifest client bucket key (logf (Log_Processing key) w) = (res, w1)"
    by (metis prod.exhaust)
  define r where "r = fst (GetObject client \<lparr>get_Bucket = bucket, get_Key = key\<rparr> (client_state (logf (Log_Processing key) w)))"
  from downloadManifest_calls [OF d r_def]
  have r: "calls w1 = calls w @ [GetObject_call \<lparr>get_Bucket = bucket, get_Key = key\<rparr> r]"
    and k: "referencedKeys (\<lparr>get_Bucket = bucket, get_Key = key\<rparr>, r) =
            (case res of
               Inl err \<Rightarrow> []
             | Inr manifest \<Rightarrow>
                 (case extractHostnamePath key of
                    (h, Some err) \<Rightarrow> []
                  | (h, None) \<Rightarrow> map (\<lambda>obj. resolveObjectKey h (Path obj)) (Objects manifest)))"
    by simp_all
  obtain h e where x: "extractHostnamePath key = (h, e)"
    by (metis prod.exhaust)
  show ?thesis
  proof (cases "\<exists>manifest. res = Inr manifest \<and> e = None")
    case True
    then obtain manifest where m: "res = Inr manifest" "e = None" by blast
    from objectLoop_calls [of client bucket dryRun t h "Objects manifest" w1] obtain news
      where n: "calls (fold (objectStep client bucket dryRun t h) (Objects manifest) w1) = calls w1 @ concat news"
        and a: "list_all2 (objectCalls bucket dryRun t) (map (\<lambda>obj. resolveObjectKey h (Path obj)) (Objects manifest)) news"
      by blast
    have "calls (manifestStep client bucket dryRun t key w)
            = calls w @ GetObject_call \<lparr>get_Bucket = bucket, get_Key = key\<rparr> r # concat news"
      using d m x n r by (simp add: manifestStep_def)
    moreover have "list_all2 (objectCalls bucket dryRun t)
            (referencedKeys (\<lparr>get_Bucket = bucket, get_Key = key\<rparr>, r)) news"
      using k m x a by simp
    ultimately show ?thesis
      unfolding manifestCalls_def by blast
  next
    case False
    then have "calls (manifestStep client bucket dryRun t key w) = calls w1"
      using d x by (auto simp: manifestStep_def split: sum.splits option.splits)
    moreover have "referencedKeys (\<lparr>get_Bucket = bucket, get_Key = key\<rparr>, r) = []"
      using False k x by (cases res; cases e) auto
    ultimately have "calls (manifestStep client bucket dryRun t key w)
            = calls w @ GetObject_call \<lparr>get_Bucket = bucket, get_Key = key\<rparr> r # concat []
         \<and> list_all2 (objectCalls bucket dryRun t)
            (referencedKeys (\<lparr>get_Bucket = bucket, get_Key = key\<rparr>, r)) []"
      using r by simp
    then show ?thesis
      unfolding manifestCalls_def by blast
  qed
qed

lemma manifestLoop_calls:
  "\<exists>news. calls (fold (manifestStep client bucket dryRun t) manifests w) = calls w @ concat news
       \<and> list_all2 (manifestCalls bucket dryRun t) manifests news"
  using fold_calls [of manifests "manifestStep client bucket dryRun t" "manifestCalls bucket dryRun t" w]
    manifestStep_calls by blast

lemma call_ListObjectsV2_calls:
  "call_ListObjectsV2 client p w = (r, w') \<Longrightarrow> calls w' = calls w @ [ListObjectsV2_call p r]"
  by (auto simp: call_ListObjectsV2_def split: prod.splits)

lemma listLoop_calls:
  assumes "listLoop client bucket pre tok acc w = Some y"
  shows "\<exists>new. calls (snd y) = calls w @ new \<and> downloads new = [] \<and> queries new = [] \<and> updates new = []"
  using assms
proof (induction rule: listLoop.raw_induct [rotated 1, consumes 1, case_names step])
  case (step listLoop' client bucket pre tok acc w y)
  let ?call = "ListObjectsV2_call \<lparr>list_Bucket = bucket, list_Prefix = pre, list_ContinuationToken = tok\<rparr>"
  obtain r w1 where c: "call_ListObjectsV2 client
             \<lparr>list_Bucket = bucket, list_Prefix = pre, list_ContinuationToken = tok\<rparr> w = (r, w1)"
    by (metis prod.exhaust)
  note c1 = call_ListObjectsV2_calls [OF c]
  show ?case
  proof (cases "\<exists>resp acc'. r = Inr resp \<and> collect (Contents resp) acc = Returns acc' \<and> ToBool (IsTruncated resp)")
    case True
    then obtain resp acc' where t: "r = Inr resp" "collect (Contents resp) acc = Returns acc'" "ToBool (IsTruncated resp)"
      by blast
    with step(2) c have "listLoop' client bucket pre (NextContinuationToken resp) acc' w1 = Some y"
      by simp
    from step(1) [OF this] obtain new where "calls (snd y) = calls w1 @ new" "downloads new = []" "queries new = []" "updates new = []"
      by blast
    with c1 have "calls (snd y) = calls w @ (?call r # new)
        \<and> downloads (?call r # new) = [] \<and> queries (?call r # new) = [] \<and> updates (?call r # new) = []"
      by simp
    then show ?thesis by blast
  next
    case False
    with step(2) c have "snd y = w1"
      by (auto split: sum.splits outcome.splits if_splits)
    with c1 have "calls (snd y) = calls w @ [?call r]
        \<and> downloads [?call r] = [] \<and> queries [?call r] = [] \<and> updates [?call r] = []"
      by simp
    then show ?thesis by blast
  qed
qed

lemma findManifests_calls:
  assumes "findManifests order client bucket cluster w = Some (res, w')"
  shows "\<exists>new. calls w' = calls w @ new \<and> downloads new = [] \<and> queries new = [] \<and> updates new = []"
proof -
  from assms obtain y where l: "listLoop client bucket (cluster @ ''/'') None [] w = Some y" and "snd y = w'"
    by (auto simp: findManifests_def split: option.splits outcome.splits sum.splits)
  with listLoop_calls [OF l] show ?thesis by simp
qed

lemma objectCalls_guarded: "objectCalls bucket dryRun t key new \<Longrightarrow> guardedBy t None new"
  by (auto simp: objectCalls_def permitted_def answers_def request_def dest: updateDue_expiry)

lemma objectCalls_other:
  "objectCalls bucket dryRun t key new \<Longrightarrow> listings new = [] \<and> downloads new = []"
  by (auto simp: objectCalls_def)

lemma objectCalls_queries:
  "objectCalls bucket dryRun t key new \<Longrightarrow> map (\<lambda>c. ret_Key (fst c)) (queries new) = [key]"
  by (auto simp: objectCalls_def)

lemma objectCalls_updates:
  "objectCalls bucket dryRun t key new \<Longrightarrow> c \<in> set (updates new) \<Longrightarrow>
     \<not> dryRun \<and> fst c = \<lparr>put_Bucket = bucket, put_Key = key,
                         put_Retention = Some \<lparr>Mode = ObjectLockRetentionModeGovernance,
                                               RetainUntilDate = Some t\<rparr>\<rparr>"
  by (auto simp: objectCalls_def request_def)

lemma objectCalls_due:
  "objectCalls bucket dryRun t key new \<Longrightarrow>
     map fst (updates new) =
       (if dryRun then []
        else map (\<lambda>q. request bucket t (ret_Key (fst q)))
               (filter (\<lambda>q. updateDue t (snd q)) (queries new)))"
  by (auto simp: objectCalls_def)

lemma objectsCalls_guarded:
  "list_all2 (objectCalls bucket dryRun t) keys news \<Longrightarrow> guardedBy t None (concat news)"
  by (rule guardedBy_concat) (auto simp: list_all2_conv_all_nth in_set_conv_nth intro: objectCalls_guarded)

lemma objectsCalls_other:
  "list_all2 (objectCalls bucket dryRun t) keys news \<Longrightarrow>
     listings (concat news) = [] \<and> downloads (concat news) = []"
  by (induction keys news rule: list_all2_induct)
     (auto simp: listings_append downloads_append dest: objectCalls_other)

lemma objectsCalls_queries:
  "list_all2 (objectCalls bucket dryRun t) keys news \<Longrightarrow>
     map (\<lambda>c. ret_Key (fst c)) (queries (concat news)) = keys"
  by (induction keys news rule: list_all2_induct)
     (auto simp: queries_append dest: objectCalls_queries)

lemma objectsCalls_updates:
  "list_all2 (objectCalls bucket dryRun t) keys news \<Longrightarrow> c \<in> set (updates (concat news)) \<Longrightarrow>
     \<not> dryRun \<and> put_Bucket (fst c) = bucket
     \<and> put_Retention (fst c) = Some \<lparr>Mode = ObjectLockRetentionModeGovernance,
                                       RetainUntilDate = Some t\<rparr>"
  by (induction keys news rule: list_all2_induct)
     (auto simp: updates_append dest: objectCalls_updates)

lemma objectsCalls_due:
  "list_all2 (objectCalls bucket dryRun t) keys news \<Longrightarrow>
     map fst (updates (concat news)) =
       (if dryRun then []
        else map (\<lambda>q. request bucket t (ret_Key (fst q)))
               (filter (\<lambda>q. updateDue t (snd q)) (queries (concat news))))"
  by (induction keys news rule: list_all2_induct)
     (auto simp: updates_append queries_append dest: objectCalls_due)

lemma manifestCalls_guarded: "manifestCalls bucket dryRun t key new \<Longrightarrow> guardedBy t None new"
  by (auto simp: manifestCalls_def permitted_def dest!: objectsCalls_guarded intro: guardedBy_weaken)

lemma manifestCalls_listings: "manifestCalls bucket dryRun t key new \<Longrightarrow> listings new = []"
  by (auto simp: manifestCalls_def dest: objectsCalls_other)

lemma manifestCalls_downloads:
  "manifestCalls bucket dryRun t key new \<Longrightarrow>
     map (\<lambda>d. get_Key (fst d)) (downloads new) = [key]
     \<and> map (\<lambda>c. ret_Key (fst c)) (queries new) = concat (map referencedKeys (downloads new))"
proof -
  assume "manifestCalls bucket dryRun t key new"
  then obtain r news
    where n: "new = GetObject_call \<lparr>get_Bucket = bucket, get_Key = key\<rparr> r # concat news"
      and a: "list_all2 (objectCalls bucket dryRun t)
            (referencedKeys (\<lparr>get_Bucket = bucket, get_Key = key\<rparr>, r)) news"
    unfolding manifestCalls_def by blast
  from objectsCalls_other [OF a] objectsCalls_queries [OF a] n show ?thesis
    by simp
qed

lemma manifestCalls_updates:
  "manifestCalls bucket dryRun t key new \<Longrightarrow> c \<in> set (updates new) \<Longrightarrow>
     \<not> dryRun \<and> put_Bucket (fst c) = bucket
     \<and> put_Retention (fst c) = Some \<lparr>Mode = ObjectLockRetentionModeGovernance,
                                       RetainUntilDate = Some t\<rparr>"
  by (auto simp: manifestCalls_def dest: objectsCalls_updates)

lemma manifestCalls_due:
  "manifestCalls bucket dryRun t key new \<Longrightarrow>
     map fst (updates new) =
       (if dryRun then []
        else map (\<lambda>q. request bucket t (ret_Key (fst q)))
               (filter (\<lambda>q. updateDue t (snd q)) (queries new)))"
  by (auto simp: manifestCalls_def dest: objectsCalls_due)

lemma manifestsCalls_guarded:
  "list_all2 (manifestCalls bucket dryRun t) manifests news \<Longrightarrow> guardedBy t None (concat news)"
  by (rule guardedBy_concat) (auto simp: list_all2_conv_all_nth in_set_conv_nth intro: manifestCalls_guarded)

lemma manifestsCalls_listings:
  "list_all2 (manifestCalls bucket dryRun t) manifests news \<Longrightarrow> listings (concat news) = []"
  by (induction manifests news rule: list_all2_induct)
     (auto simp: listings_append dest: manifestCalls_listings)

lemma manifestsCalls_downloads:
  "list_all2 (manifestCalls bucket dryRun t) manifests news \<Longrightarrow>
     map (\<lambda>d. get_Key (fst d)) (downloads (concat news)) = manifests
     \<and> map (\<lambda>c. ret_Key (fst c)) (queries (concat news))
         = concat (map referencedKeys (downloads (concat news)))"
  by (induction manifests news rule: list_all2_induct)
     (auto simp: downloads_append queries_append dest: manifestCalls_downloads)

lemma manifestsCalls_updates:
  "list_all2 (manifestCalls bucket dryRun t) manifests news \<Longrightarrow> c \<in> set (updates (concat news)) \<Longrightarrow>
     \<not> dryRun \<and> put_Bucket (fst c) = bucket
     \<and> put_Retention (fst c) = Some \<lparr>Mode = ObjectLockRetentionModeGovernance,
                                       RetainUntilDate = Some t\<rparr>"
  by (induction manifests news rule: list_all2_induct)
     (auto simp: updates_append dest: manifestCalls_updates)

lemma manifestsCalls_due:
  "list_all2 (manifestCalls bucket dryRun t) manifests news \<Longrightarrow>
     map fst (updates (concat news)) =
       (if dryRun then []
        else map (\<lambda>q. request bucket t (ret_Key (fst q)))
               (filter (\<lambda>q. updateDue t (snd q)) (queries (concat news))))"
  by (induction manifests news rule: list_all2_induct)
     (auto simp: updates_append queries_append dest: manifestCalls_due)

text \<open>The calls of a whole run: listings first, then the calls of the manifests.\<close>

lemma main_calls:
  assumes "main order client bucket cluster days dryRun t w = Some (x, w')"
  shows "\<exists>ls news. calls w' = calls w @ ls @ concat news
          \<and> downloads ls = [] \<and> queries ls = [] \<and> updates ls = []
          \<and> (\<exists>manifests. list_all2 (manifestCalls bucket dryRun t) manifests news)"
proof (cases "bucket = '''' \<or> cluster = '''' \<or> days \<le> 0")
  case True
  with assms have "calls w' = calls w @ [] @ concat []"
    by (auto simp: main_def)
  moreover have "list_all2 (manifestCalls bucket dryRun t) [] []" by simp
  ultimately show ?thesis
    by (metis downloads.simps(1) queries.simps(1) updates.simps(1))
next
  case False
  with assms obtain res w1 where f: "findManifests order client bucket cluster w = Some (res, w1)"
    by (auto simp: main_def split: option.splits)
  from findManifests_calls [OF f] obtain ls
    where ls: "calls w1 = calls w @ ls" "downloads ls = []" "queries ls = []" "updates ls = []"
    by blast
  show ?thesis
  proof (cases "\<exists>manifests. res = Returns (Inr manifests)")
    case True
    then obtain manifests where m: "res = Returns (Inr manifests)" by blast
    from manifestLoop_calls [of client bucket dryRun t manifests "logf (Log_Found (length manifests)) w1"]
    obtain news where n: "calls (fold (manifestStep client bucket dryRun t) manifests
                 (logf (Log_Found (length manifests)) w1)) = calls w1 @ concat news"
       and a: "list_all2 (manifestCalls bucket dryRun t) manifests news"
      by auto
    from assms False f m have "w' = logf Log_Done (fold (manifestStep client bucket dryRun t) manifests
                 (logf (Log_Found (length manifests)) w1))"
      by (simp add: main_def)
    with n ls have "calls w' = calls w @ ls @ concat news" by simp
    with ls a show ?thesis by blast
  next
    case no: False
    with assms False f have "calls w' = calls w1"
      by (auto simp: main_def split: outcome.splits sum.splits)
    with ls have "calls w' = calls w @ ls @ concat []" by simp
    moreover have "list_all2 (manifestCalls bucket dryRun t) [] []" by simp
    ultimately show ?thesis using ls by blast
  qed
qed

section \<open>The claim on the manifest parser\<close>

lemma decode_pathRecord:
  "decode_ManifestObject ctx \<lparr>Path = [], MD5 = [], Size = 0\<rparr> (pathRecord p)
     = Inr \<lparr>Path = p, MD5 = [], Size = 0\<rparr>"
  by (simp add: decode_ManifestObject_def pathRecord_def member_ManifestObject_def
        decode_string_def HasPrefix_def upper_def)

lemma decode_pathRecords:
  "decode_elements ctx [] (map pathRecord ps)
     = Inr (map (\<lambda>p. \<lparr>Path = p, MD5 = [], Size = 0\<rparr>) ps)"
  by (induction ps) (simp_all add: decode_pathRecord)

lemma decode_flatShape_entry:
  "decode_ManifestEntry (flatShape ps) =
     Inr \<lparr>Keyspace = [], ColumnFamily = [],
          EntryObjects = \<lparr>elems = map (\<lambda>p. \<lparr>Path = p, MD5 = [], Size = 0\<rparr>) ps,
                          spare = []\<rparr>\<rparr>"
  by (simp add: decode_ManifestEntry_def flatShape_def member_ManifestEntry_def
        decode_objects_def decode_pathRecords HasPrefix_def upper_def)

lemma decode_flatShape_entries:
  "mapM decode_ManifestEntry (map flatShape tables) =
     Inr (map (\<lambda>ps. \<lparr>Keyspace = [], ColumnFamily = [],
                      EntryObjects = \<lparr>elems = map (\<lambda>p. \<lparr>Path = p, MD5 = [], Size = 0\<rparr>) ps,
                                      spare = []\<rparr>\<rparr>)
            tables)"
  by (induction tables) (simp_all add: decode_flatShape_entry)

lemma foldl_append_concat: "foldl (\<lambda>acc e. acc @ f e) a es = a @ concat (map f es)"
  by (induction es arbitrary: a) simp_all

lemma parseManifest_tableShape:
  "parseManifest (Encoded (tableShape tables))
     = Inr \<lparr>Objects = map (\<lambda>p. \<lparr>Path = p, MD5 = [], Size = 0\<rparr>) (concat tables)\<rparr>"
  by (simp add: parseManifest_def Unmarshal_entries_def tableShape_def
        decode_flatShape_entries foldl_append_concat map_concat comp_def)

text \<open>
  C3. Of the two shapes of document, \<open>parseManifest\<close> decodes the sequence of per-table
  records, to the objects of all records in the order of the records and, within a
  record, of its objects. It does not decode the mapping with the member \<open>objects\<close>:
  for every such document, also for the one of the program's own test, it returns the
  error of \<open>json.Unmarshal\<close> for an object that is to fill a slice.
\<close>

theorem parseManifest_shapes:
  "parseManifest (Encoded (tableShape tables))
     = Inr \<lparr>Objects = map (\<lambda>p. \<lparr>Path = p, MD5 = [], Size = 0\<rparr>) (concat tables)\<rparr>
   \<and> parseManifest (Encoded (flatShape ps))
     = Inl ''failed to parse manifest: json: cannot unmarshal object into Go value of type []main.ManifestEntry''
   \<and> parseManifest (Encoded (JObject [(''objects'',
          JArray [JObject [(''path'', JString ''data/keyspace/table/file1.db'')],
                  JObject [(''path'', JString ''data/keyspace/table/file2.db'')]])]))
     = Inl ''failed to parse manifest: json: cannot unmarshal object into Go value of type []main.ManifestEntry''"
proof (intro conjI)
  show "parseManifest (Encoded (tableShape tables))
     = Inr \<lparr>Objects = map (\<lambda>p. \<lparr>Path = p, MD5 = [], Size = 0\<rparr>) (concat tables)\<rparr>"
    by (fact parseManifest_tableShape)
  show "parseManifest (Encoded (flatShape ps))
     = Inl ''failed to parse manifest: json: cannot unmarshal object into Go value of type []main.ManifestEntry''"
    by (simp add: parseManifest_def Unmarshal_entries_def flatShape_def typeError_def kind_def)
  show "parseManifest (Encoded (JObject [(''objects'',
          JArray [JObject [(''path'', JString ''data/keyspace/table/file1.db'')],
                  JObject [(''path'', JString ''data/keyspace/table/file2.db'')]])]))
     = Inl ''failed to parse manifest: json: cannot unmarshal object into Go value of type []main.ManifestEntry''"
    by (simp add: parseManifest_def Unmarshal_entries_def typeError_def kind_def)
qed

section \<open>The run on the mock, computed\<close>

lemma example_find:
  "findManifests (\<lambda>ks. ks) MockS3Client ''bucket'' ''cluster1'' example_mock =
    Some (Returns (Inr [''cluster1/host1/backup-001/meta/manifest.json'',
                        ''cluster1/host2/backup-001/meta/manifest.json'']),
      example_mock\<lparr>client_state := (client_state example_mock)\<lparr>list_script := []\<rparr>,
                   calls := take 2 example_calls\<rparr>)"
  by (simp add: findManifests_def listLoop.simps example_mock_def example_calls_def
        example_pages_def MockS3Client_def call_ListObjectsV2_def HasSuffix_def ToBool_def)

lemma example_parse:
  "parseManifest example_manifest =
     Inr \<lparr>Objects = [\<lparr>Path = ''data/ks/t1/a.db'', MD5 = '''', Size = 0\<rparr>,
                      \<lparr>Path = ''cluster1/host2/data/ks/t1/b.db'', MD5 = '''', Size = 0\<rparr>,
                      \<lparr>Path = ''data/ks/t2/c.db'', MD5 = '''', Size = 0\<rparr>]\<rparr>"
  by (simp add: example_manifest_def parseManifest_def Unmarshal_entries_def tableShape_def
       flatShape_def pathRecord_def decode_ManifestEntry_def member_ManifestEntry_def
       decode_objects_def decode_ManifestObject_def member_ManifestObject_def decode_string_def
       HasPrefix_def upper_def)

lemma example_loop:
  "calls (fold (manifestStep MockS3Client ''bucket'' False 100)
            [''cluster1/host1/backup-001/meta/manifest.json'',
             ''cluster1/host2/backup-001/meta/manifest.json'']
            (logf (Log_Found (Suc (Suc 0)))
               (example_mock\<lparr>client_state := (client_state example_mock)\<lparr>list_script := []\<rparr>,
                             calls := take 2 example_calls\<rparr>)))
     = example_calls"
  by (simp add: manifestStep_def downloadManifest_def call_GetObject_def
        example_parse extractHostnamePath_def objectStep_def resolveObjectKey_def HasPrefix_def
        checkRetention_def call_GetObjectRetention_def needsRetentionUpdate_def
        updateRetention_def call_PutObjectRetention_def ObjectLockRetentionModeGovernance_def
        logf_def example_mock_def example_calls_def MockS3Client_def Let_def)

lemma example_run:
  "\<exists>w'. main (\<lambda>ks. ks) MockS3Client ''bucket'' ''cluster1'' 30 False 100 example_mock
          = Some (Done, w')
        \<and> calls w' = example_calls"
proof -
  let ?w1 = "example_mock\<lparr>client_state := (client_state example_mock)\<lparr>list_script := []\<rparr>,
                          calls := take 2 example_calls\<rparr>"
  let ?w2 = "logf Log_Done
               (fold (manifestStep MockS3Client ''bucket'' False 100)
                  [''cluster1/host1/backup-001/meta/manifest.json'',
                   ''cluster1/host2/backup-001/meta/manifest.json'']
                  (logf (Log_Found (Suc (Suc 0))) ?w1))"
  have "main (\<lambda>ks. ks) MockS3Client ''bucket'' ''cluster1'' 30 False 100 example_mock
          = Some (Done, ?w2)"
    by (simp add: main_def example_find)
  moreover have "calls ?w2 = example_calls"
    using example_loop by simp
  ultimately show ?thesis by blast
qed

lemma example_issued: "calls w' = example_calls \<Longrightarrow> issued example_mock w' = example_calls"
  by (simp add: issued_def example_mock_def)

lemma sibling_loop:
  "calls (fold (manifestStep MockS3Client ''bucket'' False 100) sibling_keys sibling_mock)
     = sibling_calls"
  by (simp add: sibling_keys_def manifestStep_def downloadManifest_def call_GetObject_def
        example_parse parseManifest_tableShape parseManifest_def [of "Malformed e" for e]
        Unmarshal_entries_def extractHostnamePath_def objectStep_def resolveObjectKey_def
        HasPrefix_def checkRetention_def call_GetObjectRetention_def needsRetentionUpdate_def
        updateRetention_def call_PutObjectRetention_def ObjectLockRetentionModeGovernance_def
        logf_def sibling_mock_def sibling_calls_def MockS3Client_def Let_def)

section \<open>The claims on the driver\<close>

lemma guardedBy_no_updates: "updates cs = [] \<Longrightarrow> guardedBy t prev cs"
proof (induction cs arbitrary: prev)
  case Nil
  show ?case by simp
next
  case (Cons c cs)
  then show ?case by (cases c) (simp_all add: permitted_def)
qed

lemma main_issued:
  assumes "main order client bucket cluster days dryRun t w = Some (x, w')"
  shows "\<exists>ls news manifests. issued w w' = ls @ concat news
          \<and> downloads ls = [] \<and> queries ls = [] \<and> updates ls = []
          \<and> list_all2 (manifestCalls bucket dryRun t) manifests news"
proof -
  from main_calls [OF assms] obtain ls news manifests
    where c: "calls w' = calls w @ ls @ concat news"
      and l: "downloads ls = []" "queries ls = []" "updates ls = []"
      and a: "list_all2 (manifestCalls bucket dryRun t) manifests news"
    by blast
  from c have "issued w w' = ls @ concat news"
    by (simp add: issued_def)
  with l a show ?thesis by blast
qed

text \<open>
  In a run of \<open>main\<close> with the target \<open>t\<close>, whatever the client, the flags and the
  order of the manifests: each update request among the calls of the run comes directly
  after the retention query for the same bucket and key; that query failed, or reported no
  expiry, or reported an expiry strictly before \<open>t\<close>; and the request asks for the expiry
  \<open>t\<close> itself.
\<close>

lemma update_after_query:
  assumes "main order client bucket cluster days dryRun t w = Some (x, w')"
    and "i < length (issued w w')"
    and "issued w w' ! i = PutObjectRetention_call p res"
  shows "0 < i \<and>
     (\<exists>q r. issued w w' ! (i - 1) = GetObjectRetention_call q r
        \<and> ret_Bucket q = put_Bucket p \<and> ret_Key q = put_Key p
        \<and> (\<exists>m. put_Retention p = Some \<lparr>Mode = m, RetainUntilDate = Some t\<rparr>)
        \<and> (\<forall>d. queriedExpiry r = Some d \<longrightarrow> d < t))"
proof -
  from main_issued [OF assms(1)] obtain ls news manifests
    where i: "issued w w' = ls @ concat news"
      and l: "updates ls = []"
      and a: "list_all2 (manifestCalls bucket dryRun t) manifests news"
    by blast
  have "guardedBy t None (issued w w')"
    unfolding i
    by (rule guardedBy_append [OF guardedBy_no_updates [OF l] manifestsCalls_guarded [OF a]])
  from guarded_update [OF this assms(2,3)] show ?thesis
    by (auto simp: answers_def split: option.splits)
qed

text \<open>
  C10. In a run of \<open>main\<close>, whatever the client, the bucket, the cluster, the number of
  days, the dry-run flag, the target and the order of the manifests: each update request
  among the calls of the run carries a retention whose mode is
  \<open>ObjectLockRetentionModeGovernance\<close>, the string \<open>GOVERNANCE\<close>, and not the compliance
  mode.
\<close>

theorem updates_in_governance_mode:
  assumes "main order client bucket cluster days dryRun t w = Some (x, w')"
    and "c \<in> set (updates (issued w w'))"
  shows "\<exists>r. put_Retention (fst c) = Some r
           \<and> Mode r = ObjectLockRetentionModeGovernance
           \<and> Mode r = ''GOVERNANCE''
           \<and> Mode r \<noteq> ObjectLockRetentionModeCompliance"
proof -
  from main_issued [OF assms(1)] obtain ls news manifests
    where i: "issued w w' = ls @ concat news"
      and l: "updates ls = []"
      and a: "list_all2 (manifestCalls bucket dryRun t) manifests news"
    by blast
  from assms(2) have "c \<in> set (updates (concat news))"
    by (simp add: i updates_append l)
  from manifestsCalls_updates [OF a this] show ?thesis
    by (simp add: ObjectLockRetentionModeGovernance_def ObjectLockRetentionModeCompliance_def)
qed

theorem updates_in_governance_mode_witness:
  "\<exists>w'. main (\<lambda>ks. ks) MockS3Client ''bucket'' ''cluster1'' 30 False 100 example_mock
          = Some (Done, w')
     \<and> length (updates (issued example_mock w')) = 2
     \<and> (\<exists>r. put_Retention (fst (updates (issued example_mock w') ! 1)) = Some r
           \<and> Mode r = ''GOVERNANCE'')"
proof -
  from example_run obtain w'
    where r: "main (\<lambda>ks. ks) MockS3Client ''bucket'' ''cluster1'' 30 False 100 example_mock
                = Some (Done, w')"
      and c: "calls w' = example_calls"
    by blast
  note i = example_issued [OF c]
  have n: "length (updates (issued example_mock w')) = 2"
    unfolding i by (simp add: example_calls_def)
  then have "updates (issued example_mock w') ! 1 \<in> set (updates (issued example_mock w'))"
    by simp
  from updates_in_governance_mode [OF r this] r n show ?thesis
    by blast
qed

text \<open>
  \<open>checkRetention\<close> makes one retention query and reads a failure by its message alone.
  When the message contains \<open>NoSuchObjectLockConfiguration\<close>,
  \<open>ObjectLockConfigurationNotFoundError\<close> or \<open>NoSuchKey\<close>, at any place, it returns true
  and no error; for any other message it returns false and that error; when the query
  succeeds it returns \<open>needsRetentionUpdate\<close> of the reported expiry and no error. In
  the body of the loop an error from \<open>checkRetention\<close> is logged and nothing more is
  done for the object.
\<close>

lemma checkRetention_reads_message:
  "fst (checkRetention client bucket key requiredUntil w) =
     (case fst (GetObjectRetention client \<lparr>ret_Bucket = bucket, ret_Key = key\<rparr> (client_state w)) of
        Inl err \<Rightarrow>
          if sublist ''NoSuchObjectLockConfiguration'' err
             \<or> sublist ''ObjectLockConfigurationNotFoundError'' err
             \<or> sublist ''NoSuchKey'' err
          then (True, None)
          else (False, Some err)
      | Inr resp \<Rightarrow> (needsRetentionUpdate (queriedExpiry (Inr resp)) requiredUntil, None))
   \<and> (\<forall>err. snd (fst (checkRetention client bucket (resolveObjectKey h (Path obj)) t w))
                = Some err \<longrightarrow>
          objectStep client bucket dryRun t h obj w =
            logf (Log_ErrorChecking (resolveObjectKey h (Path obj)) err)
              (snd (checkRetention client bucket (resolveObjectKey h (Path obj)) t w)))"
proof -
  obtain r s
    where g: "GetObjectRetention client \<lparr>ret_Bucket = bucket, ret_Key = key\<rparr> (client_state w) = (r, s)"
    by (metis prod.exhaust)
  have "fst (checkRetention client bucket key requiredUntil w) =
     (case r of
        Inl err \<Rightarrow>
          if sublist ''NoSuchObjectLockConfiguration'' err
             \<or> sublist ''ObjectLockConfigurationNotFoundError'' err
             \<or> sublist ''NoSuchKey'' err
          then (True, None)
          else (False, Some err)
      | Inr resp \<Rightarrow> (needsRetentionUpdate (queriedExpiry (Inr resp)) requiredUntil, None))"
  proof (cases r)
    case (Inl err)
    with g show ?thesis
      by (simp add: checkRetention_def call_GetObjectRetention_def Contains_iff_sublist)
  next
    case (Inr resp)
    with g show ?thesis
      by (simp add: checkRetention_def call_GetObjectRetention_def queriedExpiry_def Let_def)
  qed
  moreover have "\<forall>err. snd (fst (checkRetention client bucket (resolveObjectKey h (Path obj)) t w))
                = Some err \<longrightarrow>
          objectStep client bucket dryRun t h obj w =
            logf (Log_ErrorChecking (resolveObjectKey h (Path obj)) err)
              (snd (checkRetention client bucket (resolveObjectKey h (Path obj)) t w))"
    by (auto simp: objectStep_def Let_def split: prod.splits)
  ultimately show ?thesis
    using g by simp
qed

text \<open>
  C8. The loop over the manifest keys, from any world and for any list of keys, makes
  exactly one download per key, in order, whatever fails on the way; after each download
  it queries exactly the keys that this download gave (none when the download, the read,
  the decoding or the hostname path failed), whatever the queries and updates before
  answered; outside a dry run it issues the update request for exactly the queries whose
  result calls for one, in the order of the queries, whatever the downloads, queries and
  updates before answered, and in a dry run it issues none; and it lists nothing. With
  well-formed flags, \<open>main\<close> ends fatally when the discovery returns an error, and then
  no download, query or update has been made; when the discovery returns the manifest
  keys, \<open>main\<close> runs the loop over all of them and ends normally.
\<close>

theorem failures_are_contained:
  "map (\<lambda>d. get_Key (fst d))
       (downloads (issued w (fold (manifestStep client bucket dryRun t) manifests w)))
     = manifests
   \<and> map (\<lambda>q. ret_Key (fst q))
       (queries (issued w (fold (manifestStep client bucket dryRun t) manifests w)))
     = concat (map referencedKeys
         (downloads (issued w (fold (manifestStep client bucket dryRun t) manifests w))))
   \<and> map fst (updates (issued w (fold (manifestStep client bucket dryRun t) manifests w)))
     = (if dryRun then []
        else map (\<lambda>q. request bucket t (ret_Key (fst q)))
               (filter (\<lambda>q. updateDue t (snd q))
                  (queries (issued w (fold (manifestStep client bucket dryRun t) manifests w)))))
   \<and> listings (issued w (fold (manifestStep client bucket dryRun t) manifests w)) = []
   \<and> (bucket \<noteq> [] \<and> cluster \<noteq> [] \<and> 0 < days
        \<and> findManifests order client bucket cluster w0 = Some (Returns (Inl err), w1) \<longrightarrow>
          main order client bucket cluster days dryRun t w0
            = Some (Fatal, logf (Log_FailedToFindManifests err) w1)
          \<and> downloads (issued w0 w1) = [] \<and> queries (issued w0 w1) = []
          \<and> updates (issued w0 w1) = [])
   \<and> (bucket \<noteq> [] \<and> cluster \<noteq> [] \<and> 0 < days
        \<and> findManifests order client bucket cluster w0 = Some (Returns (Inr ms), w2) \<longrightarrow>
          main order client bucket cluster days dryRun t w0
            = Some (Done, logf Log_Done
                      (fold (manifestStep client bucket dryRun t) ms
                         (logf (Log_Found (length ms)) w2))))"
proof (intro conjI impI)
  from manifestLoop_calls [of client bucket dryRun t manifests w] obtain news
    where c: "calls (fold (manifestStep client bucket dryRun t) manifests w) = calls w @ concat news"
      and a: "list_all2 (manifestCalls bucket dryRun t) manifests news"
    by blast
  note i = issued_append [OF c]
  from manifestsCalls_downloads [OF a]
  show "map (\<lambda>d. get_Key (fst d))
       (downloads (issued w (fold (manifestStep client bucket dryRun t) manifests w)))
     = manifests"
    and "map (\<lambda>q. ret_Key (fst q))
       (queries (issued w (fold (manifestStep client bucket dryRun t) manifests w)))
     = concat (map referencedKeys
         (downloads (issued w (fold (manifestStep client bucket dryRun t) manifests w))))"
    unfolding i by simp_all
  from manifestsCalls_due [OF a]
  show "map fst (updates (issued w (fold (manifestStep client bucket dryRun t) manifests w)))
     = (if dryRun then []
        else map (\<lambda>q. request bucket t (ret_Key (fst q)))
               (filter (\<lambda>q. updateDue t (snd q))
                  (queries (issued w (fold (manifestStep client bucket dryRun t) manifests w)))))"
    unfolding i .
  from manifestsCalls_listings [OF a]
  show "listings (issued w (fold (manifestStep client bucket dryRun t) manifests w)) = []"
    unfolding i .
next
  assume f: "bucket \<noteq> [] \<and> cluster \<noteq> [] \<and> 0 < days
        \<and> findManifests order client bucket cluster w0 = Some (Returns (Inl err), w1)"
  then have "findManifests order client bucket cluster w0 = Some (Returns (Inl err), w1)"
    by simp
  from findManifests_calls [OF this] obtain ls
    where "calls w1 = calls w0 @ ls" "downloads ls = []" "queries ls = []" "updates ls = []"
    by blast
  then show "downloads (issued w0 w1) = []" "queries (issued w0 w1) = []"
    "updates (issued w0 w1) = []"
    by (simp_all add: issued_def)
  from f show "main order client bucket cluster days dryRun t w0
            = Some (Fatal, logf (Log_FailedToFindManifests err) w1)"
    by (simp add: main_def)
next
  assume "bucket \<noteq> [] \<and> cluster \<noteq> [] \<and> 0 < days
        \<and> findManifests order client bucket cluster w0 = Some (Returns (Inr ms), w2)"
  then show "main order client bucket cluster days dryRun t w0
            = Some (Done, logf Log_Done
                      (fold (manifestStep client bucket dryRun t) ms
                         (logf (Log_Found (length ms)) w2)))"
    by (simp add: main_def)
qed

theorem failures_are_contained_witness:
  "map (\<lambda>d. get_Key (fst d)) (downloads sibling_calls) = sibling_keys
   \<and> map (\<lambda>q. ret_Key (fst q)) (queries sibling_calls)
     = concat (map referencedKeys (downloads sibling_calls))
   \<and> map (\<lambda>q. ret_Key (fst q)) (queries sibling_calls)
     = [''cluster1/host2/data/ks/t1/a.db'', ''cluster1/host2/data/ks/t1/b.db'',
        ''cluster1/host2/data/ks/t2/c.db'', ''cluster1/host4/data/ks/t3/d.db'']
   \<and> map fst (updates sibling_calls)
     = map (\<lambda>q. request ''bucket'' 100 (ret_Key (fst q)))
         (filter (\<lambda>q. updateDue 100 (snd q)) (queries sibling_calls))
   \<and> updates sibling_calls
     = [(request ''bucket'' 100 ''cluster1/host2/data/ks/t1/a.db'', Some ''AccessDenied''),
        (request ''bucket'' 100 ''cluster1/host2/data/ks/t2/c.db'', None),
        (request ''bucket'' 100 ''cluster1/host4/data/ks/t3/d.db'', None)]
   \<and> map_option fst
        (main (\<lambda>ks. ks) MockS3Client ''bucket'' ''cluster1'' 30 False 100 example_mock)
     = Some Done"
proof -
  let ?ms = "[''cluster1/host1/backup-001/meta/manifest.json'',
              ''cluster1/host2/backup-001/meta/manifest.json'']"
  let ?w1 = "example_mock\<lparr>client_state := (client_state example_mock)\<lparr>list_script := []\<rparr>,
                          calls := take 2 example_calls\<rparr>"
  note spec = failures_are_contained [of sibling_mock MockS3Client "''bucket''" False 100
                sibling_keys "''cluster1''" 30 "\<lambda>ks. ks" example_mock _ _ ?ms ?w1]
  have "calls sibling_mock = []"
    by (simp add: sibling_mock_def)
  then have i: "issued sibling_mock
                  (fold (manifestStep MockS3Client ''bucket'' False 100) sibling_keys sibling_mock)
           = sibling_calls"
    unfolding issued_def sibling_loop by simp
  have d: "map (\<lambda>d. get_Key (fst d)) (downloads sibling_calls) = sibling_keys"
    using spec [THEN conjunct1] unfolding i .
  have q: "map (\<lambda>q. ret_Key (fst q)) (queries sibling_calls)
     = concat (map referencedKeys (downloads sibling_calls))"
    using spec [THEN conjunct2, THEN conjunct1] unfolding i .
  have k: "map (\<lambda>q. ret_Key (fst q)) (queries sibling_calls)
     = [''cluster1/host2/data/ks/t1/a.db'', ''cluster1/host2/data/ks/t1/b.db'',
        ''cluster1/host2/data/ks/t2/c.db'', ''cluster1/host4/data/ks/t3/d.db'']"
    by (simp add: sibling_calls_def)
  have u: "map fst (updates sibling_calls)
     = map (\<lambda>q. request ''bucket'' 100 (ret_Key (fst q)))
         (filter (\<lambda>q. updateDue 100 (snd q)) (queries sibling_calls))"
    using spec [THEN conjunct2, THEN conjunct2, THEN conjunct1] unfolding i by simp
  have v: "updates sibling_calls
     = [(request ''bucket'' 100 ''cluster1/host2/data/ks/t1/a.db'', Some ''AccessDenied''),
        (request ''bucket'' 100 ''cluster1/host2/data/ks/t2/c.db'', None),
        (request ''bucket'' 100 ''cluster1/host4/data/ks/t3/d.db'', None)]"
    by (simp add: sibling_calls_def request_def ObjectLockRetentionModeGovernance_def)
  have "main (\<lambda>ks. ks) MockS3Client ''bucket'' ''cluster1'' 30 False 100 example_mock
          = Some (Done, logf Log_Done
                (fold (manifestStep MockS3Client ''bucket'' False 100) ?ms
                   (logf (Log_Found (length ?ms)) ?w1)))"
    by (rule spec [THEN conjunct2, THEN conjunct2, THEN conjunct2, THEN conjunct2,
                   THEN conjunct2, THEN mp])
       (simp add: example_find)
  then have m: "map_option fst
        (main (\<lambda>ks. ks) MockS3Client ''bucket'' ''cluster1'' 30 False 100 example_mock)
     = Some Done"
    by simp
  from d q k u v m show ?thesis
    by (intro conjI)
qed

section \<open>The claim on the discovery\<close>

lemma collect_keys:
  assumes "\<forall>obj \<in> set objs. Key obj \<noteq> None"
  shows "\<exists>acc'. collect objs acc = Returns acc'
      \<and> fst ` set acc' = fst ` set acc
            \<union> {k \<in> set (List.map_filter Key objs). HasSuffix k ''/meta/manifest.json''}
      \<and> (distinct (map fst acc) \<longrightarrow> distinct (map fst acc'))"
  using assms
proof (induction objs arbitrary: acc)
  case Nil
  show ?case by (simp add: List.map_filter_simps)
next
  case (Cons obj objs)
  from Cons.prems obtain key where k: "Key obj = Some key" by auto
  let ?acc1 = "if HasSuffix key ''/meta/manifest.json'' then AList.update key True acc else acc"
  from Cons.prems have "\<forall>obj \<in> set objs. Key obj \<noteq> None" by simp
  from Cons.IH [OF this, of ?acc1] obtain acc'
    where c: "collect objs ?acc1 = Returns acc'"
      and s: "fst ` set acc' = fst ` set ?acc1
            \<union> {k \<in> set (List.map_filter Key objs). HasSuffix k ''/meta/manifest.json''}"
      and d: "distinct (map fst ?acc1) \<longrightarrow> distinct (map fst acc')"
    by blast
  have "collect (obj # objs) acc = Returns acc'"
    using k c by simp
  moreover have "fst ` set acc' = fst ` set acc
            \<union> {k \<in> set (List.map_filter Key (obj # objs)). HasSuffix k ''/meta/manifest.json''}"
    using s k by (auto simp: List.map_filter_simps dom_update)
  moreover have "distinct (map fst acc) \<longrightarrow> distinct (map fst acc')"
    using d by (simp add: distinct_update)
  ultimately show ?case by blast
qed

lemma listedKeys_Cons:
  "listedKeys (page # pages) = List.map_filter Key (Contents page) @ listedKeys pages"
  by (simp add: listedKeys_def List.map_filter_def)

lemma listLoop_pages:
  assumes "pagesFrom client bucket pre tok (client_state w) pages"
      and "\<forall>obj \<in> set (concat (map Contents pages)). Key obj \<noteq> None"
  shows "\<exists>acc' w' new. listLoop client bucket pre tok acc w = Some (Returns (Inr acc'), w')
      \<and> fst ` set acc' = fst ` set acc
            \<union> {k \<in> set (listedKeys pages). HasSuffix k ''/meta/manifest.json''}
      \<and> (distinct (map fst acc) \<longrightarrow> distinct (map fst acc'))
      \<and> calls w' = calls w @ new
      \<and> map (\<lambda>l. list_ContinuationToken (fst l)) (listings new)
          = tok # map NextContinuationToken (butlast pages)
      \<and> map snd (listings new) = map Inr pages"
  using assms
proof (induction pages arbitrary: tok acc w)
  case Nil
  then show ?case by simp
next
  case (Cons page pages)
  let ?p = "\<lparr>list_Bucket = bucket, list_Prefix = pre, list_ContinuationToken = tok\<rparr>"
  from Cons.prems(1) obtain s'
    where l: "ListObjectsV2 client ?p (client_state w) = (Inr page, s')"
      and rest: "if ToBool (IsTruncated page)
                 then pagesFrom client bucket pre (NextContinuationToken page) s' pages
                 else pages = []"
    by (auto split: prod.splits sum.splits)
  let ?w1 = "w\<lparr>client_state := s', calls := calls w @ [ListObjectsV2_call ?p (Inr page)]\<rparr>"
  have c: "call_ListObjectsV2 client ?p w = (Inr page, ?w1)"
    using l by (simp add: call_ListObjectsV2_def)
  from Cons.prems(2) have "\<forall>obj \<in> set (Contents page). Key obj \<noteq> None" by simp
  from collect_keys [OF this, of acc] obtain acc1
    where c1: "collect (Contents page) acc = Returns acc1"
      and s1: "fst ` set acc1 = fst ` set acc
            \<union> {k \<in> set (List.map_filter Key (Contents page)). HasSuffix k ''/meta/manifest.json''}"
      and d1: "distinct (map fst acc) \<longrightarrow> distinct (map fst acc1)"
    by blast
  show ?case
  proof (cases "ToBool (IsTruncated page)")
    case False
    with rest have e: "pages = []" by simp
    have r: "listLoop client bucket pre tok acc w = Some (Returns (Inr acc1), ?w1)"
      using c c1 False by (subst listLoop.simps) simp
    have s: "fst ` set acc1 = fst ` set acc
            \<union> {k \<in> set (listedKeys (page # pages)). HasSuffix k ''/meta/manifest.json''}"
      using s1 e by (simp add: listedKeys_def List.map_filter_def)
    show ?thesis
    proof (intro exI conjI)
      show "listLoop client bucket pre tok acc w = Some (Returns (Inr acc1), ?w1)"
        by (fact r)
      show "fst ` set acc1 = fst ` set acc
            \<union> {k \<in> set (listedKeys (page # pages)). HasSuffix k ''/meta/manifest.json''}"
        by (fact s)
      show "distinct (map fst acc) \<longrightarrow> distinct (map fst acc1)"
        by (fact d1)
      show "calls ?w1 = calls w @ [ListObjectsV2_call ?p (Inr page)]"
        by simp
      show "map (\<lambda>l. list_ContinuationToken (fst l)) (listings [ListObjectsV2_call ?p (Inr page)])
          = tok # map NextContinuationToken (butlast (page # pages))"
        using e by simp
      show "map snd (listings [ListObjectsV2_call ?p (Inr page)]) = map Inr (page # pages)"
        using e by simp
    qed
  next
    case True
    with rest have p: "pagesFrom client bucket pre (NextContinuationToken page) (client_state ?w1) pages"
      by simp
    from Cons.prems(2) have "\<forall>obj \<in> set (concat (map Contents pages)). Key obj \<noteq> None"
      by simp
    from Cons.IH [OF p this, of acc1] obtain acc' w' new
      where r: "listLoop client bucket pre (NextContinuationToken page) acc1 ?w1
                  = Some (Returns (Inr acc'), w')"
        and s: "fst ` set acc' = fst ` set acc1
            \<union> {k \<in> set (listedKeys pages). HasSuffix k ''/meta/manifest.json''}"
        and d: "distinct (map fst acc1) \<longrightarrow> distinct (map fst acc')"
        and n: "calls w' = calls ?w1 @ new"
        and t: "map (\<lambda>l. list_ContinuationToken (fst l)) (listings new)
                  = NextContinuationToken page # map NextContinuationToken (butlast pages)"
        and o: "map snd (listings new) = map Inr pages"
      by (elim exE conjE) (rule that)
    from p have ne: "pages \<noteq> []" by (cases pages) simp_all
    have r': "listLoop client bucket pre tok acc w = Some (Returns (Inr acc'), w')"
      using c c1 True r by (subst listLoop.simps) simp
    have s': "fst ` set acc' = fst ` set acc
            \<union> {k \<in> set (listedKeys (page # pages)). HasSuffix k ''/meta/manifest.json''}"
      unfolding s s1 listedKeys_Cons by auto
    show ?thesis
    proof (intro exI conjI)
      show "listLoop client bucket pre tok acc w = Some (Returns (Inr acc'), w')"
        by (fact r')
      show "fst ` set acc' = fst ` set acc
            \<union> {k \<in> set (listedKeys (page # pages)). HasSuffix k ''/meta/manifest.json''}"
        by (fact s')
      show "distinct (map fst acc) \<longrightarrow> distinct (map fst acc')"
        using d d1 by simp
      show "calls w' = calls w @ (ListObjectsV2_call ?p (Inr page) # new)"
        using n by simp
      show "map (\<lambda>l. list_ContinuationToken (fst l))
                     (listings (ListObjectsV2_call ?p (Inr page) # new))
          = tok # map NextContinuationToken (butlast (page # pages))"
        using t ne by simp
      show "map snd (listings (ListObjectsV2_call ?p (Inr page) # new))
          = map Inr (page # pages)"
        using o by simp
    qed
  qed
qed

text \<open>
  C7. When the listing of the prefix \<open>cluster/\<close> consists of the pages \<open>pages\<close>, each
  entry has a key, and \<open>order\<close> rearranges the keys it is given, \<open>findManifests\<close> returns:
  its result has exactly the listed keys that end in \<open>/meta/manifest.json\<close>, each once,
  whatever keys the pages share; it has made one listing call per page, the first without
  token and each later one with the token of the page before, and has received the pages.
\<close>

theorem findManifests_spec:
  assumes "pagesFrom client bucket (cluster @ ''/'') None (client_state w) pages"
      and "\<forall>obj \<in> set (concat (map Contents pages)). Key obj \<noteq> None"
      and "\<And>ks. mset (order ks) = mset ks"
  shows "\<exists>manifests w'.
           findManifests order client bucket cluster w = Some (Returns (Inr manifests), w')
         \<and> set manifests = {k \<in> set (listedKeys pages). suffix ''/meta/manifest.json'' k}
         \<and> distinct manifests
         \<and> map (\<lambda>l. list_ContinuationToken (fst l)) (listings (issued w w'))
             = None # map NextContinuationToken (butlast pages)
         \<and> map snd (listings (issued w w')) = map Inr pages"
proof -
  from listLoop_pages [OF assms(1,2), of "[]"] obtain acc' w' new
    where r: "listLoop client bucket (cluster @ ''/'') None [] w = Some (Returns (Inr acc'), w')"
      and s: "fst ` set acc' = {k \<in> set (listedKeys pages). HasSuffix k ''/meta/manifest.json''}"
      and d: "distinct (map fst acc')"
      and n: "calls w' = calls w @ new"
      and t: "map (\<lambda>l. list_ContinuationToken (fst l)) (listings new)
                = None # map NextContinuationToken (butlast pages)"
      and o: "map snd (listings new) = map Inr pages"
    by auto
  have "findManifests order client bucket cluster w
          = Some (Returns (Inr (order (map fst acc'))), w')"
    using r by (simp add: findManifests_def)
  moreover have "set (order (map fst acc'))
          = {k \<in> set (listedKeys pages). suffix ''/meta/manifest.json'' k}"
    using s mset_eq_setD [OF assms(3) [of "map fst acc'"]]
    by (simp add: HasSuffix_iff_suffix)
  moreover have "distinct (order (map fst acc'))"
    using d assms(3) [of "map fst acc'"] by (metis mset_eq_imp_distinct_iff)
  ultimately show ?thesis
    using t o issued_append [OF n] by simp
qed

theorem findManifests_spec_witness:
  "\<exists>manifests w'.
      findManifests (\<lambda>ks. ks) MockS3Client ''bucket'' ''cluster1'' example_mock
        = Some (Returns (Inr manifests), w')
    \<and> set manifests = {''cluster1/host1/backup-001/meta/manifest.json'',
                        ''cluster1/host2/backup-001/meta/manifest.json''}
    \<and> distinct manifests
    \<and> map (\<lambda>l. list_ContinuationToken (fst l)) (listings (issued example_mock w'))
         = [None, Some ''token123'']"
proof -
  have p: "pagesFrom MockS3Client ''bucket'' (''cluster1'' @ ''/'') None
             (client_state example_mock) example_pages"
    by (simp add: example_mock_def example_pages_def MockS3Client_def ToBool_def)
  have k: "\<forall>obj \<in> set (concat (map Contents example_pages)). Key obj \<noteq> None"
    by (simp add: example_pages_def)
  have o: "mset ((\<lambda>ks. ks) ks) = mset ks" for ks :: "string list"
    by simp
  have lk: "listedKeys example_pages =
              [''cluster1/host1/backup-001/meta/manifest.json'',
               ''cluster1/host1/data/ks/t1/a.db'',
               ''cluster1/host1/backup-001/meta/manifest.json'',
               ''cluster1/host2/backup-001/meta/manifest.json'']"
    by (simp add: listedKeys_def example_pages_def List.map_filter_simps)
  have sfx: "suffix ''/meta/manifest.json'' ''cluster1/host1/backup-001/meta/manifest.json''"
            "\<not> suffix ''/meta/manifest.json'' ''cluster1/host1/data/ks/t1/a.db''"
            "suffix ''/meta/manifest.json'' ''cluster1/host2/backup-001/meta/manifest.json''"
    unfolding HasSuffix_iff_suffix [symmetric] by (simp_all add: HasSuffix_def)
  have l: "{k \<in> set (listedKeys example_pages). suffix ''/meta/manifest.json'' k}
            = {''cluster1/host1/backup-001/meta/manifest.json'',
               ''cluster1/host2/backup-001/meta/manifest.json''}"
    unfolding lk using sfx by auto
  have b: "None # map NextContinuationToken (butlast example_pages) = [None, Some ''token123'']"
    by (simp add: example_pages_def)
  from findManifests_spec [of MockS3Client "''bucket''" "''cluster1''" example_mock
         example_pages "\<lambda>ks. ks", OF p k o, unfolded l b]
  obtain manifests w'
    where "findManifests (\<lambda>ks. ks) MockS3Client ''bucket'' ''cluster1'' example_mock
             = Some (Returns (Inr manifests), w')"
      and "set manifests = {''cluster1/host1/backup-001/meta/manifest.json'',
                            ''cluster1/host2/backup-001/meta/manifest.json''}"
      and "distinct manifests"
      and "map (\<lambda>l. list_ContinuationToken (fst l)) (listings (issued example_mock w'))
             = [None, Some ''token123'']"
    by (elim exE conjE) (rule that)
  then show ?thesis
    by (intro exI conjI)
qed

section \<open>Runs on the store in memory, step by step\<close>

lemma Millisecond_pos: "0 < Millisecond"
  by (simp add: Millisecond_def)

lemma cut_le: "t div Millisecond * Millisecond \<le> t"
proof -
  have "t div Millisecond * Millisecond + t mod Millisecond = t"
    by (rule div_mult_mod_eq)
  moreover have "0 \<le> t mod Millisecond"
    using Millisecond_pos by simp
  ultimately show ?thesis by linarith
qed

lemma not_shortened: "ms * Millisecond < t \<Longrightarrow> \<not> t div Millisecond < ms"
proof
  assume a: "ms * Millisecond < t" and b: "t div Millisecond < ms"
  from b have "t div Millisecond + 1 \<le> ms" by simp
  then have "(t div Millisecond + 1) * Millisecond \<le> ms * Millisecond"
    using Millisecond_pos by (simp add: mult_right_mono)
  moreover have "t < (t div Millisecond + 1) * Millisecond"
  proof -
    have e: "t div Millisecond * Millisecond + t mod Millisecond = t"
      by (rule div_mult_mod_eq)
    have l: "t mod Millisecond < Millisecond"
      using Millisecond_pos by simp
    have "(t div Millisecond + 1) * Millisecond = t div Millisecond * Millisecond + Millisecond"
      by (simp add: distrib_right)
    with e l show ?thesis by linarith
  qed
  ultimately show False using a by simp
qed

lemma stored_updated [simp]: "stored (updated t d ks s) k = stored s k"
  by (simp add: stored_def updated_def)

lemma objects_updated [simp]: "objects (updated t d ks s) = objects s"
  by (simp add: updated_def)

lemma answer_updated [simp]: "answer (updated t d ks s) k = answer s k"
  by (simp add: answer_def)

lemma updated_Nil [simp]: "updated t d [] s = s"
  by (simp add: updated_def due_def)

lemma due_Nil [simp]: "due t d [] s = {}"
  by (simp add: due_def)

lemma retention_updated:
  "retention (updated t d ks s) k =
     (if k \<in> due t d ks s \<and> stored s k then Some (t div Millisecond) else retention s k)"
  by (simp add: updated_def)

lemma due_not_settled: "k \<in> due t d ks s \<Longrightarrow> \<not> settled t s k"
  by (simp add: due_def split: if_splits)

lemma settled_updated:
  "settled t (updated t d ks s) k \<longleftrightarrow>
     settled t s k \<or> (k \<in> due t d ks s \<and> stored s k \<and> t \<le> t div Millisecond * Millisecond)"
proof (cases "k \<in> due t d ks s \<and> stored s k")
  case True
  then have "\<not> settled t s k"
    using due_not_settled by blast
  with True show ?thesis
    by (simp add: settled_def retention_updated)
next
  case False
  then show ?thesis
    unfolding settled_def retention_updated stored_updated by auto
qed

lemma due_append:
  "due t d (ks1 @ ks2) s = due t d ks1 s \<union> due t d ks2 (updated t d ks1 s)"
proof (cases d)
  case True
  then show ?thesis by (simp add: due_def)
next
  case False
  have "{k \<in> set ks2. \<not> settled t (updated t False ks1 s) k}
          \<subseteq> {k \<in> set ks2. \<not> settled t s k}"
    by (auto simp: settled_updated)
  moreover have "{k \<in> set ks2. \<not> settled t s k}
          \<subseteq> {k \<in> set ks1. \<not> settled t s k} \<union> {k \<in> set ks2. \<not> settled t (updated t False ks1 s) k}"
    by (auto simp: settled_updated due_def)
  ultimately show ?thesis
    using False by (auto simp: due_def)
qed

lemma updated_append:
  "updated t d (ks1 @ ks2) s = updated t d ks2 (updated t d ks1 s)"
proof -
  have "retention (updated t d (ks1 @ ks2) s) k = retention (updated t d ks2 (updated t d ks1 s)) k" for k
    by (auto simp: retention_updated due_append)
  then have "retention (updated t d (ks1 @ ks2) s) = retention (updated t d ks2 (updated t d ks1 s))"
    by (rule ext)
  then show ?thesis
    by (simp add: updated_def)
qed

lemma passesI:
  assumes "calls w' = calls w @ new"
    and "client_state w' = updated t dryRun ks (client_state w)"
    and "set (updates new) = (\<lambda>k. (request bucket t k, answer (client_state w) k))
             ` due t dryRun ks (client_state w)"
  shows "passes bucket t dryRun ks w w'"
  unfolding passes_def issued_append [OF assms(1)]
  using assms by simp

lemma passes_reads:
  assumes "client_state w' = client_state w" and "calls w' = calls w @ new"
    and "updates new = []"
  shows "passes bucket t dryRun [] w w'"
  by (rule passesI [OF assms(2)]) (simp_all add: assms)

lemma passes_refl: "passes bucket t dryRun [] w w"
  by (rule passes_reads [of w w "[]"]) simp_all

lemma passes_trans:
  assumes a: "passes bucket t dryRun ks1 w w1" and b: "passes bucket t dryRun ks2 w1 w2"
  shows "passes bucket t dryRun (ks1 @ ks2) w w2"
proof (rule passesI)
  let ?n1 = "issued w w1" and ?n2 = "issued w1 w2"
  from a b show "calls w2 = calls w @ (?n1 @ ?n2)"
    by (simp add: passes_def)
  from a b show "client_state w2 = updated t dryRun (ks1 @ ks2) (client_state w)"
    by (simp add: passes_def updated_append)
  from a b show "set (updates (?n1 @ ?n2))
      = (\<lambda>k. (request bucket t k, answer (client_state w) k))
          ` due t dryRun (ks1 @ ks2) (client_state w)"
    by (simp add: passes_def updates_append due_append image_Un)
qed

lemma passes_objects:
  "passes bucket t dryRun ks w w' \<Longrightarrow> objects (client_state w') = objects (client_state w)"
  by (simp add: passes_def)

lemma passes_fold:
  assumes "\<And>x w. objects (client_state w) = objs \<Longrightarrow> passes bucket t dryRun (keys x) w (f x w)"
    and "objects (client_state w) = objs"
  shows "passes bucket t dryRun (concat (map keys xs)) w (fold f xs w)"
  using assms(2)
proof (induction xs arbitrary: w)
  case Nil
  show ?case by (simp add: passes_refl)
next
  case (Cons x xs)
  from assms(1) [OF Cons.prems] have s: "passes bucket t dryRun (keys x) w (f x w)" .
  from passes_objects [OF s] Cons.prems have "objects (client_state (f x w)) = objs"
    by simp
  from Cons.IH [OF this]
  have "passes bucket t dryRun (concat (map keys xs)) (f x w) (fold f xs (f x w))" .
  from passes_trans [OF s this] show ?case by simp
qed

lemma due_single: "due t d [k] s = (if \<not> d \<and> \<not> settled t s k then {k} else {})"
  by (auto simp: due_def)

lemma updated_single_idle:
  "d \<or> settled t s k \<or> \<not> stored s k \<Longrightarrow> updated t d [k] s = s"
  by (cases s) (auto simp: updated_def due_single fun_eq_iff)

lemma updated_single_due:
  "\<not> d \<Longrightarrow> \<not> settled t s k \<Longrightarrow> stored s k \<Longrightarrow>
     updated t d [k] s = s\<lparr>retention := (retention s)(k \<mapsto> t div Millisecond)\<rparr>"
  by (cases s) (auto simp: updated_def due_single fun_eq_iff)

lemma Contains_memStore_errors:
  "Contains ''NoSuchKey: The specified key does not exist.'' ''NoSuchKey''"
  "Contains ''NoSuchObjectLockConfiguration: no retention on this object''
     ''NoSuchObjectLockConfiguration''"
  by (simp_all add: HasPrefix_def)

lemma objectStep_memStore:
  "passes bucket t dryRun [resolveObjectKey h (Path obj)] w
     (objectStep memStore bucket dryRun t h obj w)"
proof -
  let ?k = "resolveObjectKey h (Path obj)"
  let ?s = "client_state w"
  let ?q = "\<lparr>ret_Bucket = bucket, ret_Key = ?k\<rparr>"
  let ?p = "request bucket t ?k"
  show ?thesis
  proof (cases "map_of (objects ?s) ?k")
    case None
    then have ns: "\<not> stored ?s ?k" "\<not> settled t ?s ?k"
      by (simp_all add: stored_def settled_def)
    let ?r = "Inl ''NoSuchKey: The specified key does not exist.''"
    show ?thesis
    proof (cases dryRun)
      case True
      with None have st: "client_state (objectStep memStore bucket dryRun t h obj w) = ?s"
        and c: "calls (objectStep memStore bucket dryRun t h obj w)
              = calls w @ [GetObjectRetention_call ?q ?r]"
        by (simp_all add: objectStep_def checkRetention_def call_GetObjectRetention_def
              memStore_def Contains_memStore_errors logf_def Let_def del: Contains.simps)
      show ?thesis
        using True st by (intro passesI [OF c]) (simp_all add: updated_single_idle due_single)
    next
      case False
      with None have st: "client_state (objectStep memStore bucket dryRun t h obj w) = ?s"
        and c: "calls (objectStep memStore bucket dryRun t h obj w)
              = calls w @ [GetObjectRetention_call ?q ?r,
                           PutObjectRetention_call ?p
                             (Some ''NoSuchKey: The specified key does not exist.'')]"
        by (simp_all add: objectStep_def checkRetention_def call_GetObjectRetention_def
              updateRetention_def call_PutObjectRetention_def request_def
              memStore_def Contains_memStore_errors logf_def Let_def del: Contains.simps)
      show ?thesis
        using False st ns
        by (intro passesI [OF c]) (simp_all add: updated_single_idle due_single answer_def)
    qed
  next
    case (Some data)
    then have sd: "stored ?s ?k"
      by (simp add: stored_def)
    define r where "r = (case retention ?s ?k of
        None \<Rightarrow> Inl ''NoSuchObjectLockConfiguration: no retention on this object''
      | Some ms \<Rightarrow> Inr \<lparr>Retention = Some \<lparr>Mode = ObjectLockRetentionModeGovernance,
                                            RetainUntilDate = Some (ms * Millisecond)\<rparr>\<rparr>)"
    let ?w1 = "w\<lparr>client_state := ?s, calls := calls w @ [GetObjectRetention_call ?q r]\<rparr>"
    have g: "GetObjectRetention memStore ?q ?s = (r, ?s)"
      by (simp add: memStore_def Some r_def split: option.splits)
    have v: "(case r of
                Inl err \<Rightarrow>
                  if Contains err ''NoSuchObjectLockConfiguration''
                     \<or> Contains err ''ObjectLockConfigurationNotFoundError''
                     \<or> Contains err ''NoSuchKey''
                  then (True, None) else (False, Some err)
              | Inr resp \<Rightarrow>
                  (needsRetentionUpdate
                     (case Retention resp of None \<Rightarrow> None | Some x \<Rightarrow> RetainUntilDate x) t,
                   None))
             = (\<not> settled t ?s ?k, None)"
      by (auto simp: r_def settled_def sd needsRetentionUpdate_def Contains_memStore_errors
            simp del: Contains.simps split: option.splits)
    have "checkRetention memStore bucket ?k t w =
            ((case r of
                Inl err \<Rightarrow>
                  if Contains err ''NoSuchObjectLockConfiguration''
                     \<or> Contains err ''ObjectLockConfigurationNotFoundError''
                     \<or> Contains err ''NoSuchKey''
                  then (True, None) else (False, Some err)
              | Inr resp \<Rightarrow>
                  (needsRetentionUpdate
                     (case Retention resp of None \<Rightarrow> None | Some x \<Rightarrow> RetainUntilDate x) t,
                   None)), ?w1)"
      unfolding checkRetention_def call_GetObjectRetention_def g Let_def
      by (cases r) (simp_all del: Contains.simps)
    then have chk: "checkRetention memStore bucket ?k t w = ((\<not> settled t ?s ?k, None), ?w1)"
      unfolding v .
    show ?thesis
    proof (cases "settled t ?s ?k \<or> dryRun")
      case True
      then have "objectStep memStore bucket dryRun t h obj w = ?w1
          \<or> objectStep memStore bucket dryRun t h obj w = logf (Log_DryRun ?k) ?w1"
        unfolding objectStep_def Let_def chk by auto
      then have st: "client_state (objectStep memStore bucket dryRun t h obj w) = ?s"
        and c: "calls (objectStep memStore bucket dryRun t h obj w)
              = calls w @ [GetObjectRetention_call ?q r]"
        by (auto simp: logf_def)
      have "updated t dryRun [?k] ?s = ?s"
        using True by (intro updated_single_idle) auto
      moreover have "due t dryRun [?k] ?s = {}"
        using True by (auto simp: due_single)
      ultimately show ?thesis
        using st by (intro passesI [OF c]) simp_all
    next
      case False
      then have ns: "\<not> settled t ?s ?k" and nd: "\<not> dryRun"
        by simp_all
      have keep: "\<not> (case retention ?s ?k of None \<Rightarrow> False | Some ms \<Rightarrow> t div Millisecond < ms)"
      proof (cases "retention ?s ?k")
        case None
        then show ?thesis by simp
      next
        case (Some ms)
        with ns sd have "ms * Millisecond < t"
          by (simp add: settled_def)
        from not_shortened [OF this] Some show ?thesis by simp
      qed
      let ?s' = "?s\<lparr>retention := (retention ?s)(?k \<mapsto> t div Millisecond)\<rparr>"
      let ?w2 = "?w1\<lparr>client_state := ?s',
                     calls := calls ?w1 @ [PutObjectRetention_call ?p None]\<rparr>"
      have "PutObjectRetention memStore ?p ?s = (None, ?s')"
        using keep by (simp add: memStore_def Some request_def)
      then have u: "updateRetention memStore bucket ?k t ?w1 = (None, ?w2)"
        by (simp add: updateRetention_def call_PutObjectRetention_def request_def)
      from False u have "objectStep memStore bucket dryRun t h obj w
                         = logf (Log_Updated ?k t) ?w2"
        unfolding objectStep_def Let_def chk by simp
      then have st: "client_state (objectStep memStore bucket dryRun t h obj w) = ?s'"
        and c: "calls (objectStep memStore bucket dryRun t h obj w)
              = calls w @ [GetObjectRetention_call ?q r, PutObjectRetention_call ?p None]"
        by (simp_all add: logf_def)
      have "updated t dryRun [?k] ?s = ?s'"
        by (rule updated_single_due [OF nd ns sd])
      moreover have "due t dryRun [?k] ?s = {?k}"
        using ns nd by (simp add: due_single)
      ultimately show ?thesis
        using st sd by (intro passesI [OF c]) (simp_all add: answer_def)
    qed
  qed
qed

lemma objectLoop_memStore:
  assumes "objects (client_state w) = objs"
  shows "passes bucket t dryRun (map (\<lambda>obj. resolveObjectKey h (Path obj)) os) w
           (fold (objectStep memStore bucket dryRun t h) os w)"
proof -
  have "passes bucket t dryRun (concat (map (\<lambda>obj. [resolveObjectKey h (Path obj)]) os)) w
           (fold (objectStep memStore bucket dryRun t h) os w)"
    by (rule passes_fold [OF _ assms]) (rule objectStep_memStore)
  moreover have "concat (map (\<lambda>obj. [resolveObjectKey h (Path obj)]) os)
                   = map (\<lambda>obj. resolveObjectKey h (Path obj)) os"
    by (induction os) simp_all
  ultimately show ?thesis by simp
qed

lemma manifestStep_memStore:
  assumes "objects (client_state w) = objs"
  shows "passes bucket t dryRun (stored_refs objs bucket key) w
           (manifestStep memStore bucket dryRun t key w)"
proof -
  let ?p = "\<lparr>get_Bucket = bucket, get_Key = key\<rparr>"
  let ?w0 = "logf (Log_Processing key) w"
  define r where "r = (case map_of objs key of
        None \<Rightarrow> Inl ''NoSuchKey: The specified key does not exist.''
      | Some data \<Rightarrow> Inr \<lparr>Body = Inr data\<rparr>)"
  let ?w1 = "?w0\<lparr>client_state := client_state w, calls := calls w @ [GetObject_call ?p r]\<rparr>"
  have g: "GetObject memStore ?p (client_state ?w0) = (r, client_state w)"
    using assms by (simp add: memStore_def r_def logf_def split: option.splits)
  have "snd (downloadManifest memStore bucket key ?w0) = ?w1"
    unfolding downloadManifest_def call_GetObject_def g
    by (simp add: logf_def split: sum.splits)
  then obtain res where d: "downloadManifest memStore bucket key ?w0 = (res, ?w1)"
    by (metis prod.collapse)
  have "r = fst (GetObject memStore ?p (client_state ?w0))"
    using g by simp
  from downloadManifest_calls [OF d this]
  have k: "stored_refs objs bucket key =
            (case res of
               Inl err \<Rightarrow> []
             | Inr manifest \<Rightarrow>
                 (case extractHostnamePath key of
                    (h, Some err) \<Rightarrow> []
                  | (h, None) \<Rightarrow> map (\<lambda>obj. resolveObjectKey h (Path obj)) (Objects manifest)))"
    by (simp add: stored_refs_def r_def)
  have read: "passes bucket t dryRun [] w ?w1"
    by (rule passes_reads [of _ _ "[GetObject_call ?p r]"]) (simp_all add: logf_def)
  obtain h e where x: "extractHostnamePath key = (h, e)"
    by (metis prod.exhaust)
  show ?thesis
  proof (cases "\<exists>manifest. res = Inr manifest \<and> e = None")
    case True
    then obtain manifest where m: "res = Inr manifest" "e = None" by blast
    have o: "objects (client_state ?w1) = objs"
      using assms by simp
    have "manifestStep memStore bucket dryRun t key w
            = fold (objectStep memStore bucket dryRun t h) (Objects manifest) ?w1"
      using d m x by (simp add: manifestStep_def)
    moreover have "stored_refs objs bucket key
            = map (\<lambda>obj. resolveObjectKey h (Path obj)) (Objects manifest)"
      using k m x by simp
    ultimately show ?thesis
      using passes_trans [OF read objectLoop_memStore [OF o, of bucket t dryRun h "Objects manifest"]]
      by simp
  next
    case False
    then have "\<exists>l. manifestStep memStore bucket dryRun t key w = logf l ?w1"
      using d x by (cases res; cases e) (auto simp: manifestStep_def)
    then obtain l where s: "manifestStep memStore bucket dryRun t key w = logf l ?w1"
      by blast
    have "stored_refs objs bucket key = []"
      using False k x by (cases res; cases e) auto
    moreover have "passes bucket t dryRun [] w (logf l ?w1)"
      by (rule passes_reads [of _ _ "[GetObject_call ?p r]"]) (simp_all add: logf_def)
    ultimately show ?thesis
      using s by simp
  qed
qed

lemma manifestLoop_memStore:
  assumes "objects (client_state w) = objs"
  shows "passes bucket t dryRun (concat (map (stored_refs objs bucket) manifests)) w
           (fold (manifestStep memStore bucket dryRun t) manifests w)"
  by (rule passes_fold [OF _ assms]) (rule manifestStep_memStore)

lemma findManifests_memStore:
  "\<exists>r. findManifests order memStore bucket cluster w =
     Some (Returns (Inr (order (stored_manifests (objects (client_state w)) cluster))),
           w\<lparr>calls := calls w @
                 [ListObjectsV2_call
                    \<lparr>list_Bucket = bucket, list_Prefix = cluster @ ''/'',
                     list_ContinuationToken = None\<rparr> r]\<rparr>)"
proof -
  let ?p = "\<lparr>list_Bucket = bucket, list_Prefix = cluster @ ''/'', list_ContinuationToken = None\<rparr>"
  let ?contents = "map (\<lambda>k. \<lparr>Key = Some k\<rparr>)
                      (filter (\<lambda>k. HasPrefix k (cluster @ ''/''))
                         (map fst (objects (client_state w))))"
  let ?resp = "\<lparr>Contents = ?contents, IsTruncated = Some False, NextContinuationToken = None\<rparr>"
  let ?w1 = "w\<lparr>calls := calls w @ [ListObjectsV2_call ?p (Inr ?resp)]\<rparr>"
  have c: "call_ListObjectsV2 memStore ?p w = (Inr ?resp, ?w1)"
    by (simp add: call_ListObjectsV2_def memStore_def)
  have "\<forall>obj \<in> set ?contents. Key obj \<noteq> None"
    by auto
  from collect_keys [OF this, of "[]"] obtain acc
    where a: "collect ?contents [] = Returns acc"
    by blast
  have "listLoop memStore bucket (cluster @ ''/'') None [] w = Some (Returns (Inr acc), ?w1)"
    by (subst listLoop.simps) (simp add: c a ToBool_def)
  moreover have "stored_manifests (objects (client_state w)) cluster = map fst acc"
    by (simp add: stored_manifests_def a)
  ultimately have "findManifests order memStore bucket cluster w =
     Some (Returns (Inr (order (stored_manifests (objects (client_state w)) cluster))), ?w1)"
    by (simp add: findManifests_def)
  then show ?thesis by blast
qed

text \<open>The keys a run on the store works on.\<close>

lemma main_memStore:
  assumes "objects (client_state w) = objs"
  shows "\<exists>x w'. main order memStore bucket cluster days dryRun t w = Some (x, w')
           \<and> passes bucket t dryRun
                (if bucket = [] \<or> cluster = [] \<or> days \<le> 0 then []
                 else concat (map (stored_refs objs bucket) (order (stored_manifests objs cluster))))
                w w'"
proof (cases "bucket = [] \<or> cluster = [] \<or> days \<le> 0")
  case True
  then have "main order memStore bucket cluster days dryRun t w = Some (Fatal, logf Log_Usage w)"
    by (simp add: main_def)
  moreover have "passes bucket t dryRun [] w (logf Log_Usage w)"
    by (rule passes_reads [of _ _ "[]"]) (simp_all add: logf_def)
  ultimately show ?thesis
    using True by simp
next
  case False
  let ?ms = "order (stored_manifests objs cluster)"
  from findManifests_memStore [of order bucket cluster w] assms obtain r
    where f: "findManifests order memStore bucket cluster w =
               Some (Returns (Inr ?ms),
                 w\<lparr>calls := calls w @
                      [ListObjectsV2_call
                         \<lparr>list_Bucket = bucket, list_Prefix = cluster @ ''/'',
                          list_ContinuationToken = None\<rparr> r]\<rparr>)"
    by auto
  let ?c = "ListObjectsV2_call \<lparr>list_Bucket = bucket, list_Prefix = cluster @ ''/'',
                               list_ContinuationToken = None\<rparr> r"
  let ?w1 = "logf (Log_Found (length ?ms)) (w\<lparr>calls := calls w @ [?c]\<rparr>)"
  let ?w2 = "fold (manifestStep memStore bucket dryRun t) ?ms ?w1"
  have m: "main order memStore bucket cluster days dryRun t w = Some (Done, logf Log_Done ?w2)"
    using False f by (simp add: main_def)
  have p1: "passes bucket t dryRun [] w ?w1"
    by (rule passes_reads [of _ _ "[?c]"]) (simp_all add: logf_def)
  have "objects (client_state ?w1) = objs"
    using assms by (simp add: logf_def)
  from manifestLoop_memStore [OF this, of bucket t dryRun ?ms]
  have p2: "passes bucket t dryRun (concat (map (stored_refs objs bucket) ?ms)) ?w1 ?w2" .
  have p3: "passes bucket t dryRun [] ?w2 (logf Log_Done ?w2)"
    by (rule passes_reads [of _ _ "[]"]) (simp_all add: logf_def)
  from passes_trans [OF passes_trans [OF p1 p2] p3]
  have "passes bucket t dryRun (concat (map (stored_refs objs bucket) ?ms)) w (logf Log_Done ?w2)"
    by simp
  with m False show ?thesis by simp
qed



lemma settled_updated_other:
  "settled t2 (updated t1 d ks s) k \<longleftrightarrow>
     (if k \<in> due t1 d ks s \<and> stored s k then t2 \<le> t1 div Millisecond * Millisecond
      else settled t2 s k)"
  by (simp add: settled_def retention_updated)

lemma settled_earlier: "settled t1 s k \<Longrightarrow> t2 \<le> t1 \<Longrightarrow> settled t2 s k"
  by (auto simp: settled_def split: option.splits)

lemma due_iff: "k \<in> due t d ks s \<longleftrightarrow> \<not> d \<and> k \<in> set ks \<and> \<not> settled t s k"
  by (simp add: due_def)

lemma not_stored_not_settled: "\<not> stored s k \<Longrightarrow> \<not> settled t s k"
  by (simp add: settled_def)

lemma failed_again:
  assumes "k \<in> due t1 d ks1 s" and "\<not> stored s k" and "set ks2 = set ks1"
  shows "k \<in> due t2 d ks2 (updated t1 d ks1 s)"
  using assms by (simp add: due_iff not_stored_not_settled)

lemma only_failed:
  assumes "t2 \<le> t1 div Millisecond * Millisecond" and "set ks2 = set ks1"
    and "k \<in> due t2 d ks2 (updated t1 d ks1 s)"
  shows "k \<in> due t1 d ks1 s \<and> \<not> stored s k"
proof -
  from assms(3) have "\<not> d \<and> k \<in> set ks2 \<and> \<not> settled t2 (updated t1 d ks1 s) k"
    unfolding due_iff .
  with assms(2) have d: "\<not> d" and k: "k \<in> set ks1"
    and n: "\<not> settled t2 (updated t1 d ks1 s) k"
    by blast+
  have "\<not> stored s k"
  proof
    assume st: "stored s k"
    show False
    proof (cases "k \<in> due t1 d ks1 s")
      case True
      with st n assms(1) show False
        by (simp add: settled_updated_other)
    next
      case False
      with d k have "settled t1 s k"
        by (simp add: due_iff)
      moreover have "t2 \<le> t1"
        using assms(1) cut_le [of t1] by simp
      ultimately have "settled t2 s k"
        by (rule settled_earlier)
      with False n show False
        by (simp add: settled_updated_other)
    qed
  qed
  with d k show ?thesis
    by (simp add: due_iff not_stored_not_settled)
qed

lemma all_again:
  assumes "t1 div Millisecond * Millisecond < t2" and "set ks2 = set ks1"
    and "k \<in> due t1 d ks1 s"
  shows "k \<in> due t2 d ks2 (updated t1 d ks1 s)"
proof (cases "stored s k")
  case True
  with assms show ?thesis
    by (simp add: due_iff settled_updated_other)
next
  case False
  with assms(3) show ?thesis
    by (rule failed_again) (rule assms(2))
qed

lemma updated_idle:
  assumes "\<And>k. k \<in> due t d ks s \<Longrightarrow> \<not> stored s k"
  shows "updated t d ks s = s"
proof -
  have "(\<lambda>k. if k \<in> due t d ks s \<and> stored s k then Some (t div Millisecond) else retention s k)
          = retention s"
  proof (rule ext)
    fix k
    show "(if k \<in> due t d ks s \<and> stored s k then Some (t div Millisecond) else retention s k)
            = retention s k"
      using assms [of k] by auto
  qed
  then show ?thesis
    by (simp add: updated_def)
qed

lemma updateKeys_passes:
  assumes "passes bucket t d ks w w'"
  shows "updateKeys (updates (issued w w')) = due t d ks (client_state w)"
proof -
  from assms have "set (updates (issued w w'))
      = (\<lambda>k. (request bucket t k, answer (client_state w) k)) ` due t d ks (client_state w)"
    by (simp add: passes_def)
  then show ?thesis
    by (simp add: updateKeys_def image_image request_def)
qed

lemma failedKeys_passes:
  assumes "passes bucket t d ks w w'"
  shows "updateKeys (filter (\<lambda>u. snd u \<noteq> None) (updates (issued w w')))
           = {k \<in> due t d ks (client_state w). \<not> stored (client_state w) k}"
proof -
  from assms have u: "set (updates (issued w w'))
      = (\<lambda>k. (request bucket t k, answer (client_state w) k)) ` due t d ks (client_state w)"
    by (simp add: passes_def)
  have "updateKeys (filter (\<lambda>u. snd u \<noteq> None) (updates (issued w w')))
          = (\<lambda>u. put_Key (fst u)) ` {u \<in> set (updates (issued w w')). snd u \<noteq> None}"
    by (simp add: updateKeys_def)
  also have "\<dots> = {k \<in> due t d ks (client_state w). answer (client_state w) k \<noteq> None}"
    unfolding u by (force simp: request_def)
  also have "\<dots> = {k \<in> due t d ks (client_state w). \<not> stored (client_state w) k}"
    by (auto simp: answer_def)
  finally show ?thesis .
qed

section \<open>The claim on a second run\<close>

lemma missing_pass:
  assumes "client_state w = client_state missing_store"
  shows "\<exists>w'. main id memStore ''bucket'' ''cluster1'' 30 False 100 w = Some (Done, w')
          \<and> client_state w' = client_state missing_store
          \<and> updates (issued w w') =
              [(\<lparr>put_Bucket = ''bucket'', put_Key = ''cluster1/host1/data/ks/t1/a.db'',
                 put_Retention = Some \<lparr>Mode = ''GOVERNANCE'', RetainUntilDate = Some 100\<rparr>\<rparr>,
                Some ''NoSuchKey: The specified key does not exist.'')]"
proof -
  let ?m = "''cluster1/host1/backup-001/meta/manifest.json''"
  let ?c = "ListObjectsV2_call
              \<lparr>list_Bucket = ''bucket'', list_Prefix = ''cluster1/'', list_ContinuationToken = None\<rparr>
              (Inr \<lparr>Contents = [\<lparr>Key = Some ?m\<rparr>], IsTruncated = Some False,
                    NextContinuationToken = None\<rparr>)"
  let ?w1 = "w\<lparr>calls := calls w @ [?c]\<rparr>"
  have f: "findManifests id memStore ''bucket'' ''cluster1'' w
             = Some (Returns (Inr [?m]), ?w1)"
    using assms
    by (simp add: findManifests_def listLoop.simps call_ListObjectsV2_def memStore_def
          missing_store_def HasPrefix_def HasSuffix_def ToBool_def)
  have p: "parseManifest (Encoded (tableShape [[''data/ks/t1/a.db'']]))
             = Inr \<lparr>Objects = [\<lparr>Path = ''data/ks/t1/a.db'', MD5 = [], Size = 0\<rparr>]\<rparr>"
    by (simp add: parseManifest_tableShape)
  let ?w2 = "manifestStep memStore ''bucket'' False 100 ?m (logf (Log_Found (Suc 0)) ?w1)"
  have m: "main id memStore ''bucket'' ''cluster1'' 30 False 100 w
             = Some (Done, logf Log_Done ?w2)"
    by (simp add: main_def f)
  have "client_state ?w2 = client_state missing_store
      \<and> calls ?w2 = calls w @
          [?c,
           GetObject_call \<lparr>get_Bucket = ''bucket'', get_Key = ?m\<rparr>
             (Inr \<lparr>Body = Inr (Encoded (tableShape [[''data/ks/t1/a.db'']]))\<rparr>),
           GetObjectRetention_call
             \<lparr>ret_Bucket = ''bucket'', ret_Key = ''cluster1/host1/data/ks/t1/a.db''\<rparr>
             (Inl ''NoSuchKey: The specified key does not exist.''),
           PutObjectRetention_call
             \<lparr>put_Bucket = ''bucket'', put_Key = ''cluster1/host1/data/ks/t1/a.db'',
              put_Retention = Some \<lparr>Mode = ''GOVERNANCE'', RetainUntilDate = Some 100\<rparr>\<rparr>
             (Some ''NoSuchKey: The specified key does not exist.'')]"
    using assms
    by (simp add: manifestStep_def downloadManifest_def call_GetObject_def p
          extractHostnamePath_def objectStep_def resolveObjectKey_def HasPrefix_def
          checkRetention_def call_GetObjectRetention_def
          updateRetention_def call_PutObjectRetention_def ObjectLockRetentionModeGovernance_def
          logf_def missing_store_def memStore_def Let_def)
  then have "client_state (logf Log_Done ?w2) = client_state missing_store"
    and "issued w (logf Log_Done ?w2) =
          [?c,
           GetObject_call \<lparr>get_Bucket = ''bucket'', get_Key = ?m\<rparr>
             (Inr \<lparr>Body = Inr (Encoded (tableShape [[''data/ks/t1/a.db'']]))\<rparr>),
           GetObjectRetention_call
             \<lparr>ret_Bucket = ''bucket'', ret_Key = ''cluster1/host1/data/ks/t1/a.db''\<rparr>
             (Inl ''NoSuchKey: The specified key does not exist.''),
           PutObjectRetention_call
             \<lparr>put_Bucket = ''bucket'', put_Key = ''cluster1/host1/data/ks/t1/a.db'',
              put_Retention = Some \<lparr>Mode = ''GOVERNANCE'', RetainUntilDate = Some 100\<rparr>\<rparr>
             (Some ''NoSuchKey: The specified key does not exist.'')]"
    by (simp_all add: issued_def logf_def)
  then have "client_state (logf Log_Done ?w2) = client_state missing_store
      \<and> updates (issued w (logf Log_Done ?w2)) =
              [(\<lparr>put_Bucket = ''bucket'', put_Key = ''cluster1/host1/data/ks/t1/a.db'',
                 put_Retention = Some \<lparr>Mode = ''GOVERNANCE'', RetainUntilDate = Some 100\<rparr>\<rparr>,
                Some ''NoSuchKey: The specified key does not exist.'')]"
    by simp
  with m show ?thesis by blast
qed

lemma mixed_pass:
  assumes s: "client_state w = (client_state mixed_store)\<lparr>retention := r\<rparr>"
    and n: "case r ''cluster1/host1/data/ks/t1/a.db'' of
              None \<Rightarrow> True | Some ms \<Rightarrow> ms * Millisecond < t"
  shows "\<exists>w'. main id memStore ''bucket'' ''cluster1'' 30 False t w = Some (Done, w')
          \<and> client_state w' =
              (client_state mixed_store)
                \<lparr>retention := r(''cluster1/host1/data/ks/t1/a.db'' \<mapsto> t div Millisecond)\<rparr>
          \<and> updates (issued w w') =
              [(request ''bucket'' t ''cluster1/host1/data/ks/t1/a.db'', None),
               (request ''bucket'' t ''cluster1/host1/data/ks/t1/b.db'',
                Some ''NoSuchKey: The specified key does not exist.'')]"
proof -
  let ?m = "''cluster1/host1/backup-001/meta/manifest.json''"
  let ?a = "''cluster1/host1/data/ks/t1/a.db''"
  let ?b = "''cluster1/host1/data/ks/t1/b.db''"
  let ?doc = "Encoded (tableShape [[''data/ks/t1/a.db'', ''data/ks/t1/b.db'']])"
  let ?c = "ListObjectsV2_call
              \<lparr>list_Bucket = ''bucket'', list_Prefix = ''cluster1/'', list_ContinuationToken = None\<rparr>
              (Inr \<lparr>Contents = [\<lparr>Key = Some ?m\<rparr>, \<lparr>Key = Some ?a\<rparr>], IsTruncated = Some False,
                    NextContinuationToken = None\<rparr>)"
  let ?w1 = "w\<lparr>calls := calls w @ [?c]\<rparr>"
  define qa where "qa = (case r ?a of
        None \<Rightarrow> Inl ''NoSuchObjectLockConfiguration: no retention on this object''
      | Some ms \<Rightarrow> Inr \<lparr>Retention = Some \<lparr>Mode = ObjectLockRetentionModeGovernance,
                                            RetainUntilDate = Some (ms * Millisecond)\<rparr>\<rparr>)"
  have f: "findManifests id memStore ''bucket'' ''cluster1'' w
             = Some (Returns (Inr [?m]), ?w1)"
    using s
    by (simp add: findManifests_def listLoop.simps call_ListObjectsV2_def memStore_def
          mixed_store_def HasPrefix_def HasSuffix_def ToBool_def)
  let ?w2 = "manifestStep memStore ''bucket'' False t ?m (logf (Log_Found (Suc 0)) ?w1)"
  have m: "main id memStore ''bucket'' ''cluster1'' 30 False t w
             = Some (Done, logf Log_Done ?w2)"
    by (simp add: main_def f)
  have "client_state ?w2 = (client_state mixed_store)\<lparr>retention := r(?a \<mapsto> t div Millisecond)\<rparr>
      \<and> calls ?w2 = calls w @
          [?c,
           GetObject_call \<lparr>get_Bucket = ''bucket'', get_Key = ?m\<rparr> (Inr \<lparr>Body = Inr ?doc\<rparr>),
           GetObjectRetention_call \<lparr>ret_Bucket = ''bucket'', ret_Key = ?a\<rparr> qa,
           PutObjectRetention_call (request ''bucket'' t ?a) None,
           GetObjectRetention_call \<lparr>ret_Bucket = ''bucket'', ret_Key = ?b\<rparr>
             (Inl ''NoSuchKey: The specified key does not exist.''),
           PutObjectRetention_call (request ''bucket'' t ?b)
             (Some ''NoSuchKey: The specified key does not exist.'')]"
  proof (cases "r ?a")
    case None
    with s show ?thesis
      by (simp add: manifestStep_def downloadManifest_def call_GetObject_def
          parseManifest_tableShape qa_def request_def
          extractHostnamePath_def objectStep_def resolveObjectKey_def HasPrefix_def
          checkRetention_def call_GetObjectRetention_def
          updateRetention_def call_PutObjectRetention_def
          logf_def mixed_store_def memStore_def Let_def)
  next
    case (Some ms)
    with n have lt: "ms * Millisecond < t"
      by simp
    note keep = not_shortened [OF lt]
    from s Some lt keep show ?thesis
      by (simp add: manifestStep_def downloadManifest_def call_GetObject_def
          parseManifest_tableShape qa_def request_def needsRetentionUpdate_def
          extractHostnamePath_def objectStep_def resolveObjectKey_def HasPrefix_def
          checkRetention_def call_GetObjectRetention_def
          updateRetention_def call_PutObjectRetention_def
          logf_def mixed_store_def memStore_def Let_def)
  qed
  then have "client_state (logf Log_Done ?w2)
               = (client_state mixed_store)\<lparr>retention := r(?a \<mapsto> t div Millisecond)\<rparr>"
    and "updates (issued w (logf Log_Done ?w2)) =
              [(request ''bucket'' t ?a, None),
               (request ''bucket'' t ?b, Some ''NoSuchKey: The specified key does not exist.'')]"
    by (simp_all add: issued_def logf_def)
  with m show ?thesis by blast
qed




section \<open>The claims on a query that is denied\<close>

lemma accessDenied_NoSuchKey:
  "Contains (accessDenied ''bucket'' ''cluster1/host1/data/ks/NoSuchKey/x.db'') ''NoSuchKey''"
  by (simp add: accessDenied_def HasPrefix_def)

lemma accessDenied_other:
  "\<not> Contains (accessDenied ''bucket'' ''cluster1/host1/data/ks/t1/a.db'') ''NoSuchObjectLockConfiguration''"
  "\<not> Contains (accessDenied ''bucket'' ''cluster1/host1/data/ks/t1/a.db'') ''ObjectLockConfigurationNotFoundError''"
  "\<not> Contains (accessDenied ''bucket'' ''cluster1/host1/data/ks/t1/a.db'') ''NoSuchKey''"
  by (simp_all add: accessDenied_def HasPrefix_def)

text \<open>
  C6, at an input on which it fails. For the caller who is not allowed to query
  retentions, the query for a stored object with a retention is denied: a failure that
  indicates neither a missing lock configuration nor a missing object. Its message names
  the key, and the key holds \<open>NoSuchKey\<close>, the name of a table. \<open>checkRetention\<close> returns
  true and no error for it, as for an object that does not exist. For a key without such a
  word the same denial is returned as the error.
\<close>

theorem checkRetention_misreads_failure:
  "stored (client_state locked_store) ''cluster1/host1/data/ks/NoSuchKey/x.db''
   \<and> retention (client_state locked_store) ''cluster1/host1/data/ks/NoSuchKey/x.db'' = Some 200
   \<and> GetObjectRetention deniedStore
        \<lparr>ret_Bucket = ''bucket'', ret_Key = ''cluster1/host1/data/ks/NoSuchKey/x.db''\<rparr>
        (client_state locked_store)
      = (Inl (accessDenied ''bucket'' ''cluster1/host1/data/ks/NoSuchKey/x.db''),
         client_state locked_store)
   \<and> fst (checkRetention deniedStore ''bucket'' ''cluster1/host1/data/ks/NoSuchKey/x.db''
             100000000 locked_store)
      = (True, None)
   \<and> fst (checkRetention deniedStore ''bucket'' ''cluster1/host1/data/ks/t1/a.db''
             100000000 locked_store)
      = (False, Some (accessDenied ''bucket'' ''cluster1/host1/data/ks/t1/a.db''))"
proof (intro conjI)
  show "stored (client_state locked_store) ''cluster1/host1/data/ks/NoSuchKey/x.db''"
    by (simp add: stored_def locked_store_def)
  show "retention (client_state locked_store) ''cluster1/host1/data/ks/NoSuchKey/x.db'' = Some 200"
    by (simp add: locked_store_def)
  show "GetObjectRetention deniedStore
        \<lparr>ret_Bucket = ''bucket'', ret_Key = ''cluster1/host1/data/ks/NoSuchKey/x.db''\<rparr>
        (client_state locked_store)
      = (Inl (accessDenied ''bucket'' ''cluster1/host1/data/ks/NoSuchKey/x.db''),
         client_state locked_store)"
    by (simp add: deniedStore_def)
  show "fst (checkRetention deniedStore ''bucket'' ''cluster1/host1/data/ks/NoSuchKey/x.db''
             100000000 locked_store)
      = (True, None)"
    by (simp add: checkRetention_def call_GetObjectRetention_def deniedStore_def
          accessDenied_NoSuchKey del: Contains.simps)
  show "fst (checkRetention deniedStore ''bucket'' ''cluster1/host1/data/ks/t1/a.db''
             100000000 locked_store)
      = (False, Some (accessDenied ''bucket'' ''cluster1/host1/data/ks/t1/a.db''))"
    by (simp add: checkRetention_def call_GetObjectRetention_def deniedStore_def
          accessDenied_other del: Contains.simps)
qed

text \<open>
  C2, at an input on which it fails. The data file of the table \<open>NoSuchKey\<close> is stored
  with a retention that expires at 200 milliseconds, which is what the store reports to a
  caller who may query it. In the run with the target of 100 milliseconds by the caller
  who is not allowed to query retentions, the query for the file is denied, the denial is
  taken for a missing object, and the program asks for the expiry of 100 milliseconds, less
  than the object has; the store denies the update.
\<close>

theorem update_requested_below_expiry:
  "fst (GetObjectRetention memStore
          \<lparr>ret_Bucket = ''bucket'', ret_Key = ''cluster1/host1/data/ks/NoSuchKey/x.db''\<rparr>
          (client_state locked_store))
     = Inr \<lparr>Retention = Some \<lparr>Mode = ''GOVERNANCE'', RetainUntilDate = Some 200000000\<rparr>\<rparr>
   \<and> main id deniedStore ''bucket'' ''cluster1'' 30 False 100000000 locked_store
     = Some (Done, locked_run)
   \<and> issued locked_store locked_run =
      [ListObjectsV2_call
         \<lparr>list_Bucket = ''bucket'', list_Prefix = ''cluster1/'', list_ContinuationToken = None\<rparr>
         (Inr \<lparr>Contents = [\<lparr>Key = Some ''cluster1/host1/backup-001/meta/manifest.json''\<rparr>,
                            \<lparr>Key = Some ''cluster1/host1/data/ks/NoSuchKey/x.db''\<rparr>],
               IsTruncated = Some False, NextContinuationToken = None\<rparr>),
       GetObject_call
         \<lparr>get_Bucket = ''bucket'', get_Key = ''cluster1/host1/backup-001/meta/manifest.json''\<rparr>
         (Inr \<lparr>Body = Inr (Encoded (tableShape [[''data/ks/NoSuchKey/x.db'']]))\<rparr>),
       GetObjectRetention_call
         \<lparr>ret_Bucket = ''bucket'', ret_Key = ''cluster1/host1/data/ks/NoSuchKey/x.db''\<rparr>
         (Inl (accessDenied ''bucket'' ''cluster1/host1/data/ks/NoSuchKey/x.db'')),
       PutObjectRetention_call
         \<lparr>put_Bucket = ''bucket'', put_Key = ''cluster1/host1/data/ks/NoSuchKey/x.db'',
          put_Retention = Some \<lparr>Mode = ''GOVERNANCE'', RetainUntilDate = Some 100000000\<rparr>\<rparr>
         (Some ''AccessDenied: Access Denied'')]"
proof -
  have before: "fst (GetObjectRetention memStore
          \<lparr>ret_Bucket = ''bucket'', ret_Key = ''cluster1/host1/data/ks/NoSuchKey/x.db''\<rparr>
          (client_state locked_store))
     = Inr \<lparr>Retention = Some \<lparr>Mode = ''GOVERNANCE'', RetainUntilDate = Some 200000000\<rparr>\<rparr>"
    by (simp add: memStore_def locked_store_def Millisecond_def ObjectLockRetentionModeGovernance_def)

  let ?m = "''cluster1/host1/backup-001/meta/manifest.json''"
  let ?k = "''cluster1/host1/data/ks/NoSuchKey/x.db''"
  let ?c = "ListObjectsV2_call
              \<lparr>list_Bucket = ''bucket'', list_Prefix = ''cluster1/'', list_ContinuationToken = None\<rparr>
              (Inr \<lparr>Contents = [\<lparr>Key = Some ?m\<rparr>, \<lparr>Key = Some ?k\<rparr>], IsTruncated = Some False,
                    NextContinuationToken = None\<rparr>)"
  let ?w1 = "locked_store\<lparr>calls := [?c]\<rparr>"
  have f: "findManifests id deniedStore ''bucket'' ''cluster1'' locked_store
             = Some (Returns (Inr [?m]), ?w1)"
    by (simp add: findManifests_def listLoop.simps call_ListObjectsV2_def deniedStore_def
          memStore_def locked_store_def HasPrefix_def HasSuffix_def ToBool_def)
  let ?w2 = "manifestStep deniedStore ''bucket'' False 100000000 ?m (logf (Log_Found (Suc 0)) ?w1)"
  have m: "main id deniedStore ''bucket'' ''cluster1'' 30 False 100000000 locked_store
             = Some (Done, logf Log_Done ?w2)"
    by (simp add: main_def f)
  have "calls ?w2 =
          [?c,
           GetObject_call \<lparr>get_Bucket = ''bucket'', get_Key = ?m\<rparr>
             (Inr \<lparr>Body = Inr (Encoded (tableShape [[''data/ks/NoSuchKey/x.db'']]))\<rparr>),
           GetObjectRetention_call \<lparr>ret_Bucket = ''bucket'', ret_Key = ?k\<rparr>
             (Inl (accessDenied ''bucket'' ?k)),
           PutObjectRetention_call
             \<lparr>put_Bucket = ''bucket'', put_Key = ?k,
              put_Retention = Some \<lparr>Mode = ''GOVERNANCE'', RetainUntilDate = Some 100000000\<rparr>\<rparr>
             (Some ''AccessDenied: Access Denied'')]"
    by (simp add: manifestStep_def downloadManifest_def call_GetObject_def
          parseManifest_tableShape accessDenied_NoSuchKey
          extractHostnamePath_def objectStep_def resolveObjectKey_def HasPrefix_def
          checkRetention_def call_GetObjectRetention_def
          updateRetention_def call_PutObjectRetention_def ObjectLockRetentionModeGovernance_def
          logf_def locked_store_def deniedStore_def memStore_def Millisecond_def Let_def
          del: Contains.simps)
  then have "issued locked_store (logf Log_Done ?w2) =
          [?c,
           GetObject_call \<lparr>get_Bucket = ''bucket'', get_Key = ?m\<rparr>
             (Inr \<lparr>Body = Inr (Encoded (tableShape [[''data/ks/NoSuchKey/x.db'']]))\<rparr>),
           GetObjectRetention_call \<lparr>ret_Bucket = ''bucket'', ret_Key = ?k\<rparr>
             (Inl (accessDenied ''bucket'' ?k)),
           PutObjectRetention_call
             \<lparr>put_Bucket = ''bucket'', put_Key = ?k,
              put_Retention = Some \<lparr>Mode = ''GOVERNANCE'', RetainUntilDate = Some 100000000\<rparr>\<rparr>
             (Some ''AccessDenied: Access Denied'')]"
    by (simp add: issued_def logf_def locked_store_def)
  moreover from m have "locked_run = logf Log_Done ?w2"
    by (simp add: locked_run_def)
  ultimately show ?thesis
    using m before by simp
qed

end
